theory Spec2Isabelle
  imports Main "HOL-Library.Word" "HOL-Library.Sublist"
begin

section \<open>YubiKey PIV private keys (api/utils/keys/yubikey.go)\<close>

text \<open>
  The file provisions, finds and reuses a private key held in a PIV slot of a YubiKey.
  Everything it does goes through the PIV driver (package \<open>piv\<close>), so the embedding has
  two layers: a small state machine for the driver and the tokens behind it (the
  environment), and on top of it the functions of the file, translated one by one with
  the environment passed explicitly and every \<open>return nil, err\<close> a branch of a sum.
  \<open>Sign\<close> and \<open>GetAttestationCerts\<close> take no part in the properties below and are not
  translated.
\<close>

subsection \<open>Go values\<close>

type_synonym uint32 = "32 word"

text \<open>
  Errors. The file builds its own errors with \<open>trace.NotFound\<close> and
  \<open>trace.BadParameter\<close>; errors of the driver and of the standard library carry no
  such kind (\<open>Other\<close>). \<open>trace.Wrap\<close> keeps the kind and the message of the error it
  wraps.
\<close>

datatype ErrKind = NotFound | BadParameter | Other

datatype error = TraceError ErrKind string

fun kindOf :: "error \<Rightarrow> ErrKind" where
  "kindOf (TraceError k m) = k"

fun Error :: "error \<Rightarrow> string" where
  "Error (TraceError k m) = m"

definition Wrap :: "error \<Rightarrow> error" where
  "Wrap e = e"

definition IsNotFound :: "error \<Rightarrow> bool" where
  "IsNotFound e = (kindOf e = NotFound)"

text \<open>
  \<open>strings.Contains\<close> and \<open>strings.ToLower\<close> on byte strings. Lower-casing is modelled
  on the ASCII letters; other bytes are kept.
\<close>

fun Contains :: "string \<Rightarrow> string \<Rightarrow> bool" where
  "Contains [] substr = (substr = [])"
| "Contains (c # s) substr = (prefix substr (c # s) \<or> Contains s substr)"

definition lowerChar :: "char \<Rightarrow> char" where
  "lowerChar c =
     (case map_of (zip ''ABCDEFGHIJKLMNOPQRSTUVWXYZ'' ''abcdefghijklmnopqrstuvwxyz'') c of
        Some l \<Rightarrow> l
      | None \<Rightarrow> c)"

definition ToLower :: "string \<Rightarrow> string" where
  "ToLower s = map lowerChar s"

text \<open>
  \<open>crypto.PublicKey\<close> is an interface value. The key types of the standard library that
  the token can hold have an \<open>Equal\<close> method; \<open>UnsupportedPublicKey\<close> stands for a value
  without one (the file tests for it with a type assertion).
\<close>

datatype crypto_PublicKey =
    ECDSAPublicKey nat
  | RSAPublicKey nat
  | UnsupportedPublicKey nat

fun hasEqual :: "crypto_PublicKey \<Rightarrow> bool" where
  "hasEqual (ECDSAPublicKey n) = True"
| "hasEqual (RSAPublicKey n) = True"
| "hasEqual (UnsupportedPublicKey n) = False"

fun Equal :: "crypto_PublicKey \<Rightarrow> crypto_PublicKey \<Rightarrow> bool" where
  "Equal (ECDSAPublicKey a) (ECDSAPublicKey b) = (a = b)"
| "Equal (RSAPublicKey a) (RSAPublicKey b) = (a = b)"
| "Equal x y = False"

text \<open>
  The fields of \<open>x509.Certificate\<close> the file reads or writes, and who signed the
  certificate (what \<open>piv.Verify\<close> checks). The random serial number of the marker
  certificate is not modelled.
\<close>

datatype CertIssuer = SelfSigned | DeviceAttestation | YubicoRoot | UnknownIssuer

record Certificate =
  Organization :: "string list"
  OrganizationalUnit :: "string list"
  PublicKey :: crypto_PublicKey
  Issuer :: CertIssuer

subsection \<open>The PIV driver: slots\<close>

text \<open>
  Modelled from the spec: \<open>piv.Slot\<close> and the "fixed enumeration (standard slots plus the
  retired-slot range)", which the PIV driver declares and the repository only imports.
  The keys and object identifiers are those of the PIV standard, as the driver has them;
  the source's comments name 9a and 9c. The retired key management slots are the
  driver's table \<open>retiredKeyManagementSlots\<close>, keys 82 to 95.
\<close>

record Slot =
  Key :: uint32
  Object :: uint32

definition SlotAuthentication :: Slot where
  "SlotAuthentication = \<lparr>Key = 0x9a, Object = 0x5fc105\<rparr>"

definition SlotSignature :: Slot where
  "SlotSignature = \<lparr>Key = 0x9c, Object = 0x5fc10a\<rparr>"

definition SlotCardAuthentication :: Slot where
  "SlotCardAuthentication = \<lparr>Key = 0x9e, Object = 0x5fc101\<rparr>"

definition SlotKeyManagement :: Slot where
  "SlotKeyManagement = \<lparr>Key = 0x9d, Object = 0x5fc10b\<rparr>"

definition retiredKeyManagementSlots :: "(uint32 \<times> Slot) list" where
  "retiredKeyManagementSlots =
    [(0x82, \<lparr>Key = 0x82, Object = 0x5fc10d\<rparr>), (0x83, \<lparr>Key = 0x83, Object = 0x5fc10e\<rparr>),
     (0x84, \<lparr>Key = 0x84, Object = 0x5fc10f\<rparr>), (0x85, \<lparr>Key = 0x85, Object = 0x5fc110\<rparr>),
     (0x86, \<lparr>Key = 0x86, Object = 0x5fc111\<rparr>), (0x87, \<lparr>Key = 0x87, Object = 0x5fc112\<rparr>),
     (0x88, \<lparr>Key = 0x88, Object = 0x5fc113\<rparr>), (0x89, \<lparr>Key = 0x89, Object = 0x5fc114\<rparr>),
     (0x8a, \<lparr>Key = 0x8a, Object = 0x5fc115\<rparr>), (0x8b, \<lparr>Key = 0x8b, Object = 0x5fc116\<rparr>),
     (0x8c, \<lparr>Key = 0x8c, Object = 0x5fc117\<rparr>), (0x8d, \<lparr>Key = 0x8d, Object = 0x5fc118\<rparr>),
     (0x8e, \<lparr>Key = 0x8e, Object = 0x5fc119\<rparr>), (0x8f, \<lparr>Key = 0x8f, Object = 0x5fc11a\<rparr>),
     (0x90, \<lparr>Key = 0x90, Object = 0x5fc11b\<rparr>), (0x91, \<lparr>Key = 0x91, Object = 0x5fc11c\<rparr>),
     (0x92, \<lparr>Key = 0x92, Object = 0x5fc11d\<rparr>), (0x93, \<lparr>Key = 0x93, Object = 0x5fc11e\<rparr>),
     (0x94, \<lparr>Key = 0x94, Object = 0x5fc11f\<rparr>), (0x95, \<lparr>Key = 0x95, Object = 0x5fc120\<rparr>)]"

text \<open>\<open>piv.RetiredKeyManagementSlot\<close>: the table's entry and whether there is one.\<close>

definition RetiredKeyManagementSlot :: "uint32 \<Rightarrow> Slot \<times> bool" where
  "RetiredKeyManagementSlot key =
     (case map_of retiredKeyManagementSlots key of
        Some slot \<Rightarrow> (slot, True)
      | None \<Rightarrow> (\<lparr>Key = 0, Object = 0\<rparr>, False))"

text \<open>The fixed enumeration: the four named slots and the retired ones.\<close>

definition pivSlots :: "Slot list" where
  "pivSlots =
     [SlotAuthentication, SlotSignature, SlotCardAuthentication, SlotKeyManagement]
     @ map snd retiredKeyManagementSlots"

datatype TouchPolicy = TouchPolicyNever | TouchPolicyAlways | TouchPolicyCached

datatype PINPolicy = PINPolicyNever | PINPolicyOnce | PINPolicyAlways

datatype Algorithm = AlgorithmEC256 | AlgorithmEC384 | AlgorithmRSA2048

text \<open>\<open>piv.Key\<close>, the options of a key generation.\<close>

record piv_Key =
  Algorithm :: Algorithm
  PINPolicy :: PINPolicy
  TouchPolicy :: TouchPolicy

datatype ManagementKey = DefaultManagementKey | OtherManagementKey nat

subsection \<open>parsePIVSlot\<close>

text \<open>\<open>%X\<close> of an unsigned integer: upper-case hexadecimal digits.\<close>

definition hexDigit :: "nat \<Rightarrow> char" where
  "hexDigit d = ''0123456789ABCDEF'' ! d"

function fmtX :: "nat \<Rightarrow> string" where
  "fmtX n = (if n < 16 then [hexDigit n] else fmtX (n div 16) @ [hexDigit (n mod 16)])"
  by pat_completeness auto
termination
  by (relation "measure id") auto

declare fmtX.simps [simp del]

definition parsePIVSlot :: "uint32 \<Rightarrow> error + Slot" where
  "parsePIVSlot slotKey =
     (if slotKey = Key SlotAuthentication then Inr SlotAuthentication
      else if slotKey = Key SlotSignature then Inr SlotSignature
      else if slotKey = Key SlotCardAuthentication then Inr SlotCardAuthentication
      else if slotKey = Key SlotKeyManagement then Inr SlotKeyManagement
      else
        (case RetiredKeyManagementSlot slotKey of
           (retiredSlot, ok) \<Rightarrow>
             if \<not> ok
             then Inl (TraceError BadParameter (''slot '' @ fmtX (unat slotKey) @ '' does not exist''))
             else Inr retiredSlot))"

subsection \<open>The PIV driver: tokens and the calls the file makes\<close>

text \<open>
  The environment: the driver is a library outside the repository, and the model gives
  its calls the behaviour the source relies on (its comments: "Attest the key to make
  sure it hasn't been imported", "Store a self-signed certificate to mark this slot").
  A token has a reader name and a serial number; a slot holds at most
  one key pair (under the slot's key) and one certificate (under the slot's object
  identifier). A key pair records whether the token generated it: the token attests
  generated keys only. \<open>opens\<close> scripts the outcomes of the next calls of \<open>piv.Open\<close>
  on the reader (\<open>None\<close>, or no entry left: the connection opens); \<open>fault\<close> lets any
  other call on the token fail with a given error.
\<close>

datatype DeviceOp =
    OpSerial | OpCertificate | OpAttest | OpAttestationCertificate
  | OpGenerateKey | OpSign | OpSetCertificate

record SlotKeyData =
  keyPublic :: crypto_PublicKey
  keyGenerated :: bool
  keyOpts :: piv_Key

record Token =
  reader :: string
  serial :: uint32
  keys :: "uint32 \<Rightarrow> SlotKeyData option"
  certs :: "uint32 \<Rightarrow> Certificate option"
  attestationCert :: "Certificate option"
  managementKey :: ManagementKey
  keygen :: nat
  opens :: "error option list"
  fault :: "DeviceOp \<Rightarrow> error option"

text \<open>
  What the program does to the environment, in order: every \<open>piv.Open\<close>, every
  \<open>time.Sleep\<close> (in milliseconds), every \<open>GenerateKey\<close> and \<open>SetCertificate\<close> (reader and
  slot key). Closing a connection changes nothing that is modelled and is left out.
\<close>

datatype Event =
    CallOpen string
  | CallSleep nat
  | CallGenerateKey string uint32
  | CallSetCertificate string uint32

record World =
  readers :: "Token list"
  cardsErr :: "error option"
  apiVersion :: string
  events :: "Event list"

definition emit :: "Event \<Rightarrow> World \<Rightarrow> World" where
  "emit ev w = w\<lparr>events := events w @ [ev]\<rparr>"

fun findToken :: "string \<Rightarrow> Token list \<Rightarrow> Token option" where
  "findToken name [] = None"
| "findToken name (t # ts) = (if reader t = name then Some t else findToken name ts)"

fun updToken :: "string \<Rightarrow> (Token \<Rightarrow> Token) \<Rightarrow> Token list \<Rightarrow> Token list" where
  "updToken name f [] = []"
| "updToken name f (t # ts) = (if reader t = name then f t # ts else t # updToken name f ts)"

definition noReader :: error where
  "noReader = TraceError Other ''connecting to smart card: unknown reader''"

text \<open>\<open>piv.Cards\<close>: the names of the connected readers, in the order of enumeration.\<close>

definition piv_Cards :: "World \<Rightarrow> error + string list" where
  "piv_Cards w = (case cardsErr w of Some e \<Rightarrow> Inl e | None \<Rightarrow> Inr (map reader (readers w)))"

text \<open>
  \<open>piv.Open\<close>: one attempt to connect to a reader. It takes the next scripted outcome
  of the token. The connection is named by the reader.
\<close>

definition piv_Open :: "string \<Rightarrow> World \<Rightarrow> (error + string) \<times> World" where
  "piv_Open name w =
     (let w1 = emit (CallOpen name) w in
      case findToken name (readers w1) of
        None \<Rightarrow> (Inl noReader, w1)
      | Some t \<Rightarrow>
          (case opens t of
             [] \<Rightarrow> (Inr name, w1)
           | None # rest \<Rightarrow>
               (Inr name, w1\<lparr>readers := updToken name (\<lambda>t. t\<lparr>opens := rest\<rparr>) (readers w1)\<rparr>)
           | Some e # rest \<Rightarrow>
               (Inl e, w1\<lparr>readers := updToken name (\<lambda>t. t\<lparr>opens := rest\<rparr>) (readers w1)\<rparr>)))"

definition time_Sleep :: "nat \<Rightarrow> World \<Rightarrow> World" where
  "time_Sleep ms w = emit (CallSleep ms) w"

text \<open>A call on an open connection: the token behind it, unless the call is faulted.\<close>

definition onToken :: "World \<Rightarrow> string \<Rightarrow> DeviceOp \<Rightarrow> (Token \<Rightarrow> error + 'a) \<Rightarrow> error + 'a" where
  "onToken w yk op f =
     (case findToken yk (readers w) of
        None \<Rightarrow> Inl noReader
      | Some t \<Rightarrow> (case fault t op of Some e \<Rightarrow> Inl e | None \<Rightarrow> f t))"

definition yk_Serial :: "World \<Rightarrow> string \<Rightarrow> error + uint32" where
  "yk_Serial w yk = onToken w yk OpSerial (\<lambda>t. Inr (serial t))"

definition ErrNotFound :: error where
  "ErrNotFound = TraceError Other ''data object or application not found''"

text \<open>\<open>yk.Certificate\<close>: the certificate stored under the slot's object identifier.\<close>

definition yk_Certificate :: "World \<Rightarrow> string \<Rightarrow> Slot \<Rightarrow> error + Certificate option" where
  "yk_Certificate w yk slot =
     onToken w yk OpCertificate
       (\<lambda>t. case certs t (Object slot) of None \<Rightarrow> Inl ErrNotFound | Some c \<Rightarrow> Inr (Some c))"

text \<open>
  \<open>yk.Attest\<close>: a certificate, signed by the token's attestation key, for the public key
  of the slot; only for a key the token generated.
\<close>

definition yk_Attest :: "World \<Rightarrow> string \<Rightarrow> Slot \<Rightarrow> error + Certificate" where
  "yk_Attest w yk slot =
     onToken w yk OpAttest
       (\<lambda>t. case keys t (Key slot) of
               None \<Rightarrow> Inl (TraceError Other ''attest: no key in slot'')
             | Some k \<Rightarrow>
                 if keyGenerated k
                 then Inr \<lparr>Organization = [], OrganizationalUnit = [],
                           PublicKey = keyPublic k, Issuer = DeviceAttestation\<rparr>
                 else Inl (TraceError Other ''attest: key was not generated on the device''))"

definition yk_AttestationCertificate :: "World \<Rightarrow> string \<Rightarrow> error + Certificate" where
  "yk_AttestationCertificate w yk =
     onToken w yk OpAttestationCertificate
       (\<lambda>t. case attestationCert t of None \<Rightarrow> Inl ErrNotFound | Some c \<Rightarrow> Inr c)"

text \<open>
  \<open>piv.Verify\<close>: the attestation certificate chains to the vendor's root and signs the
  slot certificate. The attestation it returns is dropped by the caller.
\<close>

definition piv_Verify :: "Certificate \<Rightarrow> Certificate \<Rightarrow> error + unit" where
  "piv_Verify attestation slotCert =
     (if Issuer attestation = YubicoRoot \<and> Issuer slotCert = DeviceAttestation
      then Inr ()
      else Inl (TraceError Other ''attestation certificate not signed by the root''))"

definition generatedPublicKey :: "Algorithm \<Rightarrow> nat \<Rightarrow> crypto_PublicKey" where
  "generatedPublicKey alg n =
     (case alg of
        AlgorithmEC256 \<Rightarrow> ECDSAPublicKey n
      | AlgorithmEC384 \<Rightarrow> ECDSAPublicKey n
      | AlgorithmRSA2048 \<Rightarrow> RSAPublicKey n)"

definition authFailed :: error where
  "authFailed = TraceError Other ''authenticating with management key: auth challenge failed''"

text \<open>
  \<open>yk.GenerateKey\<close>: with the token's management key, a fresh key pair replaces what
  the slot held; the public key is returned.
\<close>

definition yk_GenerateKey ::
    "string \<Rightarrow> ManagementKey \<Rightarrow> Slot \<Rightarrow> piv_Key \<Rightarrow> World \<Rightarrow> (error + crypto_PublicKey) \<times> World" where
  "yk_GenerateKey yk key slot opts w =
     (let w1 = emit (CallGenerateKey yk (Key slot)) w in
      case findToken yk (readers w1) of
        None \<Rightarrow> (Inl noReader, w1)
      | Some t \<Rightarrow>
          (case fault t OpGenerateKey of
             Some e \<Rightarrow> (Inl e, w1)
           | None \<Rightarrow>
               if key \<noteq> managementKey t then (Inl authFailed, w1)
               else
                 (let pub = generatedPublicKey (Algorithm opts) (keygen t);
                      store = (\<lambda>t. t\<lparr>keys := (keys t)(Key slot \<mapsto>
                                 \<lparr>keyPublic = pub, keyGenerated = True, keyOpts = opts\<rparr>),
                               keygen := Suc (keygen t)\<rparr>)
                  in (Inr pub, w1\<lparr>readers := updToken yk store (readers w1)\<rparr>))))"

text \<open>
  \<open>yk.PrivateKey\<close>: a handle for signing with the key of a slot, over the open
  connection; refused for a public key of a type the driver does not know (in the model,
  the types without \<open>Equal\<close>).
\<close>

record piv_PrivateKey =
  privConn :: string
  privSlot :: Slot
  privPublic :: crypto_PublicKey

definition yk_PrivateKey :: "string \<Rightarrow> Slot \<Rightarrow> crypto_PublicKey \<Rightarrow> error + piv_PrivateKey" where
  "yk_PrivateKey yk slot public =
     (if hasEqual public
      then Inr \<lparr>privConn = yk, privSlot = slot, privPublic = public\<rparr>
      else Inl (TraceError Other ''unsupported public key type''))"

text \<open>
  \<open>x509.CreateCertificate\<close> with the token's key as the signer: the token signs the
  template, which can fail (a touch that is not given, a lost connection).
\<close>

definition x509_CreateCertificate :: "World \<Rightarrow> Certificate \<Rightarrow> piv_PrivateKey \<Rightarrow> error + Certificate" where
  "x509_CreateCertificate w template priv = onToken w (privConn priv) OpSign (\<lambda>t. Inr template)"

text \<open>\<open>yk.SetCertificate\<close>: with the management key, stores a certificate in the slot.\<close>

definition yk_SetCertificate ::
    "string \<Rightarrow> ManagementKey \<Rightarrow> Slot \<Rightarrow> Certificate \<Rightarrow> World \<Rightarrow> (error + unit) \<times> World" where
  "yk_SetCertificate yk key slot cert w =
     (let w1 = emit (CallSetCertificate yk (Key slot)) w in
      case findToken yk (readers w1) of
        None \<Rightarrow> (Inl noReader, w1)
      | Some t \<Rightarrow>
          (case fault t OpSetCertificate of
             Some e \<Rightarrow> (Inl e, w1)
           | None \<Rightarrow>
               if key \<noteq> managementKey t then (Inl authFailed, w1)
               else (Inr (), w1\<lparr>readers :=
                       updToken yk (\<lambda>t. t\<lparr>certs := (certs t)(Object slot \<mapsto> cert)\<rparr>) (readers w1)\<rparr>)))"

subsection \<open>The YubiKey and its connection\<close>

definition PIVCardTypeYubiKey :: string where
  "PIVCardTypeYubiKey = ''yubikey''"

definition certOrgName :: string where
  "certOrgName = ''teleport''"

text \<open>
  \<open>yubiKey\<close>: a reader name and the serial number read from it. \<open>YubiKeyPrivateKey\<close>
  embeds the \<open>yubiKey\<close> and adds the slot and the public key.
\<close>

record yubiKey =
  card' :: string
  serialNumber :: uint32

record YubiKeyPrivateKey =
  yubiKey :: yubiKey
  pivSlot :: Slot
  pub :: crypto_PublicKey

record yubiKeyPrivateKeyData =
  SerialNumber :: uint32
  SlotKey :: uint32

definition newYubiKeyPrivateKey :: "yubiKey \<Rightarrow> Slot \<Rightarrow> crypto_PublicKey \<Rightarrow> error + YubiKeyPrivateKey" where
  "newYubiKeyPrivateKey y slot pk = Inr \<lparr>yubiKey = y, pivSlot = slot, pub = pk\<rparr>"

definition Public :: "YubiKeyPrivateKey \<Rightarrow> crypto_PublicKey" where
  "Public y = pub y"

definition retryError :: string where
  "retryError = ''connecting to smart card: the smart card cannot be accessed because of other connections outstanding''"

definition isRetryError :: "error \<Rightarrow> bool" where
  "isRetryError err = Contains (Error err) retryError"

definition maxRetries :: nat where
  "maxRetries = 100"

text \<open>
  The loop of \<open>open\<close>, by the number of iterations left (\<open>maxRetries - i\<close>), with the
  variable \<open>err\<close> (\<open>None\<close> for Go's \<open>nil\<close>, its value before the first attempt). After
  the loop Go returns \<open>trace.Wrap(err)\<close>; with \<open>err\<close> still \<open>nil\<close> that would be a nil
  connection with a nil error, which takes \<open>maxRetries = 0\<close>: the model gives that
  case an error of its own, \<open>nilError\<close>. With an iteration left the loop does not depend
  on the initial \<open>err\<close> (\<open>open_loop_initial_err\<close>), and \<open>open\<close> starts with 100.
\<close>

definition nilError :: error where
  "nilError = TraceError Other []"

fun open_loop :: "nat \<Rightarrow> error option \<Rightarrow> yubiKey \<Rightarrow> World \<Rightarrow> (error + string) \<times> World" where
  "open_loop 0 err y w =
     (case err of Some e \<Rightarrow> (Inl (Wrap e), w) | None \<Rightarrow> (Inl nilError, w))"
| "open_loop (Suc n) err y w =
     (case piv_Open (card' y) w of
        (Inr yk, w1) \<Rightarrow> (Inr yk, w1)
      | (Inl e, w1) \<Rightarrow>
          if \<not> isRetryError e then (Inl (Wrap e), w1)
          else open_loop n (Some e) y (time_Sleep 100 w1))"

definition yubiKey_open :: "yubiKey \<Rightarrow> World \<Rightarrow> (error + string) \<times> World" where
  "yubiKey_open y w = open_loop maxRetries None y w"

definition newYubiKey :: "string \<Rightarrow> World \<Rightarrow> (error + yubiKey) \<times> World" where
  "newYubiKey name w =
     (let y = \<lparr>card' = name, serialNumber = 0\<rparr> in
      case yubiKey_open y w of
        (Inl err, w1) \<Rightarrow> (Inl (Wrap err), w1)
      | (Inr yk, w1) \<Rightarrow>
          (case yk_Serial w1 yk of
             Inl err \<Rightarrow> (Inl (Wrap err), w1)
           | Inr sn \<Rightarrow> (Inr (y\<lparr>serialNumber := sn\<rparr>), w1)))"

definition findYubiKeyCards :: "World \<Rightarrow> error + string list" where
  "findYubiKeyCards w =
     (case piv_Cards w of
        Inl err \<Rightarrow> Inl (Wrap err)
      | Inr cards \<Rightarrow> Inr (filter (\<lambda>c. Contains (ToLower c) PIVCardTypeYubiKey) cards))"

text \<open>The loop of \<open>findYubiKey\<close> over the cards, and the return after it.\<close>

fun findYubiKey_loop :: "uint32 \<Rightarrow> string list \<Rightarrow> World \<Rightarrow> (error + yubiKey) \<times> World" where
  "findYubiKey_loop sn [] w =
     (Inl (TraceError NotFound ''no yubiKey device found with serial number''), w)"
| "findYubiKey_loop sn (c # cards) w =
     (case newYubiKey c w of
        (Inl err, w1) \<Rightarrow> (Inl (Wrap err), w1)
      | (Inr y, w1) \<Rightarrow>
          if sn = 0 \<or> serialNumber y = sn then (Inr y, w1)
          else findYubiKey_loop sn cards w1)"

definition findYubiKey :: "uint32 \<Rightarrow> World \<Rightarrow> (error + yubiKey) \<times> World" where
  "findYubiKey sn w =
     (case findYubiKeyCards w of
        Inl err \<Rightarrow> (Inl (Wrap err), w)
      | Inr yubiKeyCards \<Rightarrow>
          if length yubiKeyCards = 0
          then (Inl (TraceError NotFound ''no yubiKey devices found''), w)
          else findYubiKey_loop sn yubiKeyCards w)"

subsection \<open>Reusing and generating a key\<close>

text \<open>
  The messages of the errors that \<open>getPrivateKey\<close> builds. The values Go formats into
  them (\<open>%+v\<close> of the certificate, \<open>%T\<close> of the key, \<open>%q\<close> of the serial number in
  \<open>findYubiKey\<close>) are left out.
\<close>

definition slotEmptyMsg :: string where
  "slotEmptyMsg = ''YubiKey certificate slot is empty, expected a Teleport Client cert''"

definition slotUnknownMsg :: string where
  "slotUnknownMsg = ''YubiKey certificate slot contained unknown certificate:''"

definition slotMismatchMsg :: string where
  "slotMismatchMsg = ''YubiKey slot contains mismatched certificates and must be regenerated''"

definition unsupportedKeyMsg :: string where
  "unsupportedKeyMsg = ''certificate's public key is not a supported public key''"

text \<open>
  \<open>getPrivateKey\<close>. After \<open>open\<close> it only reads the token, so every return carries the
  environment as \<open>open\<close> left it.
\<close>

definition getPrivateKey :: "yubiKey \<Rightarrow> Slot \<Rightarrow> World \<Rightarrow> (error + YubiKeyPrivateKey) \<times> World" where
  "getPrivateKey y slot w =
     (case yubiKey_open y w of
        (Inl err, w1) \<Rightarrow> (Inl (Wrap err), w1)
      | (Inr yk, w1) \<Rightarrow>
          (case yk_Certificate w1 yk slot of
             Inl err \<Rightarrow> (Inl (TraceError NotFound slotEmptyMsg), w1)
           | Inr None \<Rightarrow> (Inl (TraceError NotFound slotEmptyMsg), w1)
           | Inr (Some cert) \<Rightarrow>
               if length (Organization cert) = 0 \<or> Organization cert ! 0 \<noteq> certOrgName
               then (Inl (TraceError NotFound slotUnknownMsg), w1)
               else
                 (case yk_Attest w1 yk slot of
                    Inl err \<Rightarrow> (Inl (Wrap err), w1)
                  | Inr slotCert \<Rightarrow>
                      (case yk_AttestationCertificate w1 yk of
                         Inl err \<Rightarrow> (Inl (Wrap err), w1)
                       | Inr attCert \<Rightarrow>
                           (case piv_Verify attCert slotCert of
                              Inl err \<Rightarrow> (Inl (Wrap err), w1)
                            | Inr u \<Rightarrow>
                                if \<not> hasEqual (PublicKey cert)
                                then (Inl (TraceError BadParameter unsupportedKeyMsg), w1)
                                else if \<not> Equal (PublicKey cert) (PublicKey slotCert)
                                then (Inl (TraceError NotFound slotMismatchMsg), w1)
                                else (newYubiKeyPrivateKey y slot (PublicKey slotCert), w1))))))"

text \<open>
  \<open>selfSignedTeleportClientCertificate\<close>. The organizational unit is \<open>api.Version\<close>, a
  constant of another package, read here from the environment (\<open>apiVersion\<close>). The serial
  number drawn with \<open>rand.Int\<close>, and the error return of that call, are not modelled.
\<close>

definition selfSignedTeleportClientCertificate ::
    "World \<Rightarrow> piv_PrivateKey \<Rightarrow> crypto_PublicKey \<Rightarrow> error + Certificate" where
  "selfSignedTeleportClientCertificate w priv pk =
     (let cert = \<lparr>Organization = [certOrgName], OrganizationalUnit = [apiVersion w],
                  PublicKey = pk, Issuer = SelfSigned\<rparr>
      in case x509_CreateCertificate w cert priv of
           Inl err \<Rightarrow> Inl (Wrap err)
         | Inr created \<Rightarrow> Inr created)"

text \<open>
  \<open>generatePrivateKey\<close>: a key pair generated in the slot, then the marker certificate
  signed with it and stored in the slot.
\<close>

definition generatePrivateKey ::
    "yubiKey \<Rightarrow> Slot \<Rightarrow> TouchPolicy \<Rightarrow> World \<Rightarrow> (error + YubiKeyPrivateKey) \<times> World" where
  "generatePrivateKey y slot touchPolicy w =
     (case yubiKey_open y w of
        (Inl err, w1) \<Rightarrow> (Inl (Wrap err), w1)
      | (Inr yk, w1) \<Rightarrow>
          (let opts = \<lparr>Algorithm = AlgorithmEC256, PINPolicy = PINPolicyNever,
                       TouchPolicy = touchPolicy\<rparr>
           in case yk_GenerateKey yk DefaultManagementKey slot opts w1 of
                (Inl err, w2) \<Rightarrow> (Inl (Wrap err), w2)
              | (Inr pk, w2) \<Rightarrow>
                  (case yk_PrivateKey yk slot pk of
                     Inl err \<Rightarrow> (Inl (Wrap err), w2)
                   | Inr priv \<Rightarrow>
                       (case selfSignedTeleportClientCertificate w2 priv pk of
                          Inl err \<Rightarrow> (Inl (Wrap err), w2)
                        | Inr cert \<Rightarrow>
                            (case yk_SetCertificate yk DefaultManagementKey slot cert w2 of
                               (Inl err, w3) \<Rightarrow> (Inl (Wrap err), w3)
                             | (Inr u, w3) \<Rightarrow> (newYubiKeyPrivateKey y slot pk, w3))))))"

subsection \<open>The key handle descriptor\<close>

text \<open>\<open>json.Marshal\<close> of \<open>yubiKeyPrivateKeyData\<close>: the two fields in decimal, under their tags.\<close>

function fmtD :: "nat \<Rightarrow> string" where
  "fmtD n =
     (if n < 10 then [''0123456789'' ! n] else fmtD (n div 10) @ [''0123456789'' ! (n mod 10)])"
  by pat_completeness auto
termination
  by (relation "measure id") auto

declare fmtD.simps [simp del]

definition json_Marshal :: "yubiKeyPrivateKeyData \<Rightarrow> error + string" where
  \<open>json_Marshal d =
     Inr (''{"serial_number":'' @ fmtD (unat (SerialNumber d))
          @ '',"slot_key":'' @ fmtD (unat (SlotKey d)) @ ''}'')\<close>

text \<open>
  \<open>pem.Block\<close>. \<open>pem.EncodeToMemory\<close> armours the block as text (base64 between a
  BEGIN and an END line of the type); the armour is the standard library's and the model
  keeps the block it encodes.
\<close>

record pem_Block =
  Type :: string
  Headers :: "(string \<times> string) list"
  Bytes :: string

text \<open>
  Modelled from the spec: the type label of the armoured block, which another file of
  the package declares; the spec says that it "identifies it as a hardware-key
  descriptor". Nothing below depends on its value.
\<close>

definition pivYubiKeyPrivateKeyType :: string where
  "pivYubiKeyPrivateKeyType = ''PIV YUBIKEY PRIVATE KEY''"

definition keyPEM :: "YubiKeyPrivateKey \<Rightarrow> error + pem_Block" where
  "keyPEM y =
     (case json_Marshal \<lparr>SerialNumber = serialNumber (yubiKey y), SlotKey = Key (pivSlot y)\<rparr> of
        Inl err \<Rightarrow> Inl (Wrap err)
      | Inr keyDataBytes \<Rightarrow>
          Inr \<lparr>Type = pivYubiKeyPrivateKeyType, Headers = [], Bytes = keyDataBytes\<rparr>)"

text \<open>
  \<open>parseYubiKeyPrivateKeyData\<close>. \<open>json.Unmarshal\<close> into \<open>yubiKeyPrivateKeyData\<close> is the
  standard library's decoder and is a parameter of the model: from the bytes, an error
  or the decoded fields.
\<close>

definition parseYubiKeyPrivateKeyData ::
    "(string \<Rightarrow> error + yubiKeyPrivateKeyData) \<Rightarrow> string \<Rightarrow> World
       \<Rightarrow> (error + YubiKeyPrivateKey) \<times> World" where
  "parseYubiKeyPrivateKeyData json_Unmarshal keyDataBytes w =
     (case json_Unmarshal keyDataBytes of
        Inl err \<Rightarrow> (Inl (Wrap err), w)
      | Inr keyData \<Rightarrow>
          (case parsePIVSlot (SlotKey keyData) of
             Inl err \<Rightarrow> (Inl (Wrap err), w)
           | Inr slot \<Rightarrow>
               (case findYubiKey (SerialNumber keyData) w of
                  (Inl err, w1) \<Rightarrow> (Inl (Wrap err), w1)
                | (Inr y, w1) \<Rightarrow>
                    (case getPrivateKey y slot w1 of
                       (Inl err, w2) \<Rightarrow> (Inl (Wrap err), w2)
                     | (Inr priv, w2) \<Rightarrow> (Inr priv, w2)))))"

text \<open>
  A decoder for the parameter at concrete inputs: it reads exactly the text that
  \<open>json.Marshal\<close> writes for the structure (both fields, in order, decimal without
  leading zeros, below \<open>2^32\<close>) and refuses everything else. \<open>json.Unmarshal\<close> accepts
  more (white space, other orders, unknown fields).
\<close>

definition digitVal :: "char \<Rightarrow> nat option" where
  "digitVal c =
     (if 48 \<le> (of_char c :: nat) \<and> (of_char c :: nat) \<le> 57
      then Some (of_char c - 48) else None)"

fun readDigits :: "string \<Rightarrow> nat \<Rightarrow> nat \<times> string" where
  "readDigits [] acc = (acc, [])"
| "readDigits (c # s) acc =
     (case digitVal c of None \<Rightarrow> (acc, c # s) | Some d \<Rightarrow> readDigits s (10 * acc + d))"

definition readNumber :: "string \<Rightarrow> (nat \<times> string) option" where
  "readNumber s =
     (case s of
        [] \<Rightarrow> None
      | c # r \<Rightarrow>
          (case digitVal c of
             None \<Rightarrow> None
           | Some d \<Rightarrow>
               if d = 0 then Some (0, r) else Some (readDigits s 0)))"

definition stripPrefix :: "string \<Rightarrow> string \<Rightarrow> string option" where
  "stripPrefix p s = (if prefix p s then Some (drop (length p) s) else None)"

definition syntaxError :: error where
  "syntaxError = TraceError Other ''invalid character looking for beginning of value''"

definition canonicalUnmarshal :: "string \<Rightarrow> error + yubiKeyPrivateKeyData" where
  \<open>canonicalUnmarshal bs =
     (case stripPrefix ''{"serial_number":'' bs of
        None \<Rightarrow> Inl syntaxError
      | Some r1 \<Rightarrow>
          (case readNumber r1 of
             None \<Rightarrow> Inl syntaxError
           | Some (n, r2) \<Rightarrow>
               (case stripPrefix '',"slot_key":'' r2 of
                  None \<Rightarrow> Inl syntaxError
                | Some r3 \<Rightarrow>
                    (case readNumber r3 of
                       None \<Rightarrow> Inl syntaxError
                     | Some (m, r4) \<Rightarrow>
                         if r4 = ''}'' \<and> n < 2 ^ 32 \<and> m < 2 ^ 32
                         then Inr \<lparr>SerialNumber = of_nat n, SlotKey = of_nat m\<rparr>
                         else Inl syntaxError))))\<close>

subsection \<open>GetOrGenerateYubiKeyPrivateKey\<close>

text \<open>
  The slot and the touch policy for a touch requirement: the assignments at the head of
  \<open>GetOrGenerateYubiKeyPrivateKey\<close> (the spec's \<open>resolveByTouchRequirement\<close>).
\<close>

definition resolveByTouchRequirement :: "bool \<Rightarrow> Slot \<times> TouchPolicy" where
  "resolveByTouchRequirement touchRequired =
     (if touchRequired then (SlotSignature, TouchPolicyCached)
      else (SlotAuthentication, TouchPolicyNever))"

text \<open>
  Modelled from the spec: \<open>NewPrivateKey\<close>, of another file of the package, "the generic
  private-key abstraction/container that wraps this hardware key": the signer and its
  serialized descriptor.
\<close>

record PrivateKey =
  Signer :: YubiKeyPrivateKey
  privKeyPEM :: pem_Block

definition NewPrivateKey :: "YubiKeyPrivateKey \<Rightarrow> pem_Block \<Rightarrow> error + PrivateKey" where
  "NewPrivateKey priv pemBytes = Inr \<lparr>Signer = priv, privKeyPEM = pemBytes\<rparr>"

text \<open>The end of \<open>GetOrGenerateYubiKeyPrivateKey\<close>, once it has a key: lines 78 to 83.\<close>

definition wrapKey :: "YubiKeyPrivateKey \<Rightarrow> World \<Rightarrow> (error + PrivateKey) \<times> World" where
  "wrapKey priv w =
     (case keyPEM priv of
        Inl err \<Rightarrow> (Inl (Wrap err), w)
      | Inr pemBytes \<Rightarrow> (NewPrivateKey priv pemBytes, w))"

definition GetOrGenerateYubiKeyPrivateKey :: "bool \<Rightarrow> World \<Rightarrow> (error + PrivateKey) \<times> World" where
  "GetOrGenerateYubiKeyPrivateKey touchRequired w =
     (case findYubiKey 0 w of
        (Inl err, w1) \<Rightarrow> (Inl (Wrap err), w1)
      | (Inr y, w1) \<Rightarrow>
          (case resolveByTouchRequirement touchRequired of
             (slot, touchPolicy) \<Rightarrow>
               (case getPrivateKey y slot w1 of
                  (Inr priv, w2) \<Rightarrow> wrapKey priv w2
                | (Inl err, w2) \<Rightarrow>
                    (case generatePrivateKey y slot touchPolicy w2 of
                       (Inl err2, w3) \<Rightarrow> (Inl (Wrap err2), w3)
                     | (Inr priv, w3) \<Rightarrow> wrapKey priv w3))))"

section \<open>Notions used by the properties\<close>

text \<open>
  What a call leaves of the environment. \<open>content\<close> is a token without its script of
  connection outcomes: serial, keys, certificates, attestation certificate, management
  key and faults. \<open>mutations\<close> are the calls that write to a token. \<open>sameDevice w w'\<close>:
  from \<open>w\<close> to \<open>w'\<close> no token's content changed, nothing was written, and the host is
  the same; only connections were opened and time passed.
\<close>

definition content :: "Token \<Rightarrow> Token" where
  "content t = t\<lparr>opens := []\<rparr>"

fun isMutation :: "Event \<Rightarrow> bool" where
  "isMutation (CallGenerateKey name k) = True"
| "isMutation (CallSetCertificate name k) = True"
| "isMutation (CallOpen name) = False"
| "isMutation (CallSleep ms) = False"

definition mutations :: "World \<Rightarrow> Event list" where
  "mutations w = filter isMutation (events w)"

definition sameDevice :: "World \<Rightarrow> World \<Rightarrow> bool" where
  "sameDevice w w' =
     (map content (readers w') = map content (readers w) \<and> cardsErr w' = cardsErr w \<and>
      apiVersion w' = apiVersion w \<and> mutations w' = mutations w)"

text \<open>The key pair and the certificate a slot of a reader holds.\<close>

definition slotKeyOf :: "World \<Rightarrow> string \<Rightarrow> Slot \<Rightarrow> SlotKeyData option" where
  "slotKeyOf w name slot =
     (case findToken name (readers w) of None \<Rightarrow> None | Some t \<Rightarrow> keys t (Key slot))"

definition slotCertOf :: "World \<Rightarrow> string \<Rightarrow> Slot \<Rightarrow> Certificate option" where
  "slotCertOf w name slot =
     (case findToken name (readers w) of None \<Rightarrow> None | Some t \<Rightarrow> certs t (Object slot))"

text \<open>The descriptor that \<open>keyPEM\<close> serializes for a key handle.\<close>

definition descriptorOf :: "YubiKeyPrivateKey \<Rightarrow> yubiKeyPrivateKeyData" where
  "descriptorOf h = \<lparr>SerialNumber = serialNumber (yubiKey h), SlotKey = Key (pivSlot h)\<rparr>"

text \<open>An outcome of \<open>piv.Open\<close> after which \<open>open\<close> tries again.\<close>

definition retryOutcome :: "error option \<Rightarrow> bool" where
  "retryOutcome outcome = (case outcome of None \<Rightarrow> False | Some e \<Rightarrow> isRetryError e)"

text \<open>
  A token that answers the calls of the reuse check and whose attestation certificate is
  the vendor's.
\<close>

definition answersAttestation :: "Token \<Rightarrow> bool" where
  "answersAttestation t =
     (fault t OpCertificate = None \<and> fault t OpAttest = None \<and>
      fault t OpAttestationCertificate = None \<and>
      (case attestationCert t of None \<Rightarrow> False | Some c \<Rightarrow> Issuer c = YubicoRoot))"

section \<open>Example environments\<close>

text \<open>
  Concrete environments, for evaluating the functions. A token as it leaves the factory:
  no key, no certificate, the vendor's attestation certificate, the default management
  key, no pending failure.
\<close>

definition yubicoAttestation :: Certificate where
  "yubicoAttestation =
     \<lparr>Organization = [''Yubico''], OrganizationalUnit = [], PublicKey = RSAPublicKey 0,
      Issuer = YubicoRoot\<rparr>"

definition blankToken :: "string \<Rightarrow> uint32 \<Rightarrow> Token" where
  "blankToken name sn =
     \<lparr>reader = name, serial = sn, keys = (\<lambda>k. None), certs = (\<lambda>k. None),
      attestationCert = Some yubicoAttestation, managementKey = DefaultManagementKey,
      keygen = 1, opens = [], fault = (\<lambda>op. None)\<rparr>"

definition worldOf :: "Token list \<Rightarrow> World" where
  "worldOf ts = \<lparr>readers = ts, cardsErr = None, apiVersion = ''11.0.0'', events = []\<rparr>"

definition readerA :: string where
  "readerA = ''Yubico YubiKey OTP+FIDO+CCID 00 00''"

definition readerB :: string where
  "readerB = ''Yubico YubiKey OTP+FIDO+CCID 01 00''"

definition yubiKeyA :: yubiKey where
  "yubiKeyA = \<lparr>card' = readerA, serialNumber = 12345678\<rparr>"

definition markerCert :: "crypto_PublicKey \<Rightarrow> Certificate" where
  "markerCert pk =
     \<lparr>Organization = [certOrgName], OrganizationalUnit = [''11.0.0''], PublicKey = pk,
      Issuer = SelfSigned\<rparr>"

definition keyPair :: "crypto_PublicKey \<Rightarrow> bool \<Rightarrow> SlotKeyData" where
  "keyPair pk generated =
     \<lparr>keyPublic = pk, keyGenerated = generated,
      keyOpts = \<lparr>Algorithm = AlgorithmEC256, PINPolicy = PINPolicyNever,
                 TouchPolicy = TouchPolicyNever\<rparr>\<rparr>"

text \<open>A blank token; and a second token behind it in the enumeration.\<close>

definition freshWorld :: World where
  "freshWorld = worldOf [blankToken readerA 12345678]"

definition twoTokenWorld :: World where
  "twoTokenWorld = worldOf [blankToken readerA 12345678, blankToken readerB 87654321]"

text \<open>
  Slot 9a holds a key pair and a certificate of some other organization (a slot another
  program uses).
\<close>

definition foreignCert :: Certificate where
  "foreignCert =
     \<lparr>Organization = [''ACME''], OrganizationalUnit = [], PublicKey = ECDSAPublicKey 7,
      Issuer = UnknownIssuer\<rparr>"

definition foreignWorld :: World where
  "foreignWorld =
     worldOf [(blankToken readerA 12345678)
       \<lparr>keys := (\<lambda>k. None)(0x9a \<mapsto> keyPair (ECDSAPublicKey 7) True),
        certs := (\<lambda>k. None)(0x5fc105 \<mapsto> foreignCert), keygen := 8\<rparr>]"

text \<open>
  Slot 9a holds the marker certificate, but its key pair was imported: the token does
  not attest it.
\<close>

definition importedWorld :: World where
  "importedWorld =
     worldOf [(blankToken readerA 12345678)
       \<lparr>keys := (\<lambda>k. None)(0x9a \<mapsto> keyPair (ECDSAPublicKey 7) False),
        certs := (\<lambda>k. None)(0x5fc105 \<mapsto> markerCert (ECDSAPublicKey 7)), keygen := 8\<rparr>]"

text \<open>
  Slot 9a holds the marker certificate for one public key and a generated key pair with
  another.
\<close>

definition mismatchWorld :: World where
  "mismatchWorld =
     worldOf [(blankToken readerA 12345678)
       \<lparr>keys := (\<lambda>k. None)(0x9a \<mapsto> keyPair (ECDSAPublicKey 8) True),
        certs := (\<lambda>k. None)(0x5fc105 \<mapsto> markerCert (ECDSAPublicKey 7)), keygen := 9\<rparr>]"

text \<open>Slot 9a of the first token was provisioned by this program.\<close>

definition provisionedWorld :: World where
  "provisionedWorld =
     worldOf [(blankToken readerA 12345678)
       \<lparr>keys := (\<lambda>k. None)(0x9a \<mapsto> keyPair (ECDSAPublicKey 7) True),
        certs := (\<lambda>k. None)(0x5fc105 \<mapsto> markerCert (ECDSAPublicKey 7)), keygen := 8\<rparr>,
       blankToken readerB 87654321]"

text \<open>The second token of the enumeration was provisioned, the first is blank.\<close>

definition laterWorld :: World where
  "laterWorld =
     worldOf [blankToken readerA 12345678,
       (blankToken readerB 87654321)
       \<lparr>keys := (\<lambda>k. None)(0x9a \<mapsto> keyPair (ECDSAPublicKey 3) True),
        certs := (\<lambda>k. None)(0x5fc105 \<mapsto> markerCert (ECDSAPublicKey 3)), keygen := 4\<rparr>]"

text \<open>A key handle whose token reported the serial number 0.\<close>

definition zeroSerialKey :: YubiKeyPrivateKey where
  "zeroSerialKey =
     \<lparr>yubiKey = \<lparr>card' = readerB, serialNumber = 0\<rparr>, pivSlot = SlotAuthentication,
      pub = ECDSAPublicKey 3\<rparr>"

text \<open>Tokens whose next connections fail: held by another connection, or unplugged.\<close>

definition busyError :: error where
  "busyError = TraceError Other retryError"

definition resetError :: error where
  "resetError = TraceError Other ''connecting to smart card: the smart card has been reset''"

definition busyWorld :: "error option list \<Rightarrow> World" where
  "busyWorld script = worldOf [(blankToken readerA 12345678)\<lparr>opens := script\<rparr>]"

section \<open>Properties\<close>

subsection \<open>Slots\<close>

lemma parsePIVSlot_named:
  "\<forall>slot \<in> set pivSlots. parsePIVSlot (Key slot) = Inr slot"
  by (simp add: pivSlots_def retiredKeyManagementSlots_def parsePIVSlot_def
      RetiredKeyManagementSlot_def SlotAuthentication_def SlotSignature_def
      SlotCardAuthentication_def SlotKeyManagement_def)

lemma parsePIVSlot_unknown:
  assumes "slotKey \<notin> Key ` set pivSlots"
  shows "parsePIVSlot slotKey =
    Inl (TraceError BadParameter (''slot '' @ fmtX (unat slotKey) @ '' does not exist''))"
  using assms
  by (simp add: pivSlots_def retiredKeyManagementSlots_def parsePIVSlot_def
      RetiredKeyManagementSlot_def SlotAuthentication_def SlotSignature_def
      SlotCardAuthentication_def SlotKeyManagement_def)

lemma parsePIVSlot_Inr_Key:
  assumes "parsePIVSlot slotKey = Inr slot"
  shows "Key slot = slotKey \<and> slot \<in> set pivSlots"
proof (cases "slotKey \<in> Key ` set pivSlots")
  case True
  then obtain s where s: "s \<in> set pivSlots" "slotKey = Key s"
    by blast
  with parsePIVSlot_named have "parsePIVSlot slotKey = Inr s"
    by blast
  with assms s show ?thesis
    by simp
next
  case False
  from parsePIVSlot_unknown [OF this] assms show ?thesis
    by simp
qed

text \<open>
  C6. For every slot of the fixed enumeration (authentication, signature, card
  authentication, key management and the retired key management slots),
  \<open>parsePIVSlot\<close> of the slot's key returns that slot; for every other 32-bit value it
  fails with a \<open>BadParameter\<close> error that names the value, and returns no slot.
\<close>

theorem parsePIVSlot_enumeration:
  "(\<forall>slot \<in> set pivSlots. parsePIVSlot (Key slot) = Inr slot) \<and>
   (\<forall>slotKey. slotKey \<notin> Key ` set pivSlots \<longrightarrow>
      parsePIVSlot slotKey =
        Inl (TraceError BadParameter (''slot '' @ fmtX (unat slotKey) @ '' does not exist'')))"
  using parsePIVSlot_named parsePIVSlot_unknown by blast

theorem parsePIVSlot_enumeration_witness:
  "SlotSignature \<in> set pivSlots \<and> parsePIVSlot 0x9c = Inr SlotSignature \<and>
   \<lparr>Key = 0x8f, Object = 0x5fc11a\<rparr> \<in> set pivSlots \<and>
   parsePIVSlot 0x8f = Inr \<lparr>Key = 0x8f, Object = 0x5fc11a\<rparr> \<and>
   0x42 \<notin> Key ` set pivSlots \<and>
   parsePIVSlot 0x42 = Inl (TraceError BadParameter ''slot 42 does not exist'')"
proof -
  have in1: "SlotSignature \<in> set pivSlots"
    by (simp add: pivSlots_def)
  have in2: "\<lparr>Key = 0x8f, Object = 0x5fc11a\<rparr> \<in> set pivSlots"
    by (simp add: pivSlots_def retiredKeyManagementSlots_def)
  have out: "(0x42 :: uint32) \<notin> Key ` set pivSlots"
    by (simp add: pivSlots_def retiredKeyManagementSlots_def SlotAuthentication_def
        SlotSignature_def SlotCardAuthentication_def SlotKeyManagement_def)
  have hex: "fmtX (unat (0x42 :: uint32)) = ''42''"
    by (simp add: fmtX.simps hexDigit_def)
  from parsePIVSlot_enumeration in1 have "parsePIVSlot (Key SlotSignature) = Inr SlotSignature"
    by blast
  moreover from parsePIVSlot_enumeration in2
  have "parsePIVSlot (Key \<lparr>Key = 0x8f, Object = 0x5fc11a\<rparr>) = Inr \<lparr>Key = 0x8f, Object = 0x5fc11a\<rparr>"
    by blast
  moreover from parsePIVSlot_enumeration out
  have "parsePIVSlot 0x42 =
      Inl (TraceError BadParameter (''slot '' @ fmtX (unat (0x42 :: uint32)) @ '' does not exist''))"
    by blast
  ultimately show ?thesis
    using in1 in2 out hex by (simp add: SlotSignature_def)
qed

subsection \<open>The environment across calls\<close>

lemma findToken_reader: "findToken name ts = Some t \<Longrightarrow> reader t = name"
  by (induction ts) (auto split: if_splits)

lemma findToken_updToken:
  "findToken name ts = Some t \<Longrightarrow> reader (f t) = name \<Longrightarrow>
   findToken name (updToken name f ts) = Some (f t)"
  by (induction ts) (auto split: if_splits)

lemma map_content_updToken:
  "(\<And>t. content (f t) = content t) \<Longrightarrow> map content (updToken name f ts) = map content ts"
  by (induction ts) auto

lemma content_opens [simp]: "content (t\<lparr>opens := s\<rparr>) = content t"
  by (simp add: content_def)

lemma content_fields [simp]:
  "reader (content t) = reader t" "serial (content t) = serial t" "keys (content t) = keys t"
  "certs (content t) = certs t" "attestationCert (content t) = attestationCert t"
  "managementKey (content t) = managementKey t" "keygen (content t) = keygen t"
  "fault (content t) = fault t"
  by (simp_all add: content_def)

lemma findToken_map_content:
  "findToken name (map content ts) = map_option content (findToken name ts)"
  by (induction ts) auto

lemma sameDevice_refl [simp]: "sameDevice w w"
  by (simp add: sameDevice_def)

lemma sameDevice_trans: "sameDevice w w1 \<Longrightarrow> sameDevice w1 w2 \<Longrightarrow> sameDevice w w2"
  by (simp add: sameDevice_def)

lemma sameDevice_findToken:
  assumes "sameDevice w w'"
  shows "map_option content (findToken name (readers w')) = map_option content (findToken name (readers w))"
  using assms findToken_map_content [of name "readers w"] findToken_map_content [of name "readers w'"]
  by (simp add: sameDevice_def)

lemma sameDevice_emit_quiet: "\<not> isMutation ev \<Longrightarrow> sameDevice w (emit ev w)"
  by (simp add: sameDevice_def emit_def mutations_def)

lemma piv_Open_sameDevice: "sameDevice w (snd (piv_Open name w))"
  by (auto simp: piv_Open_def Let_def sameDevice_def emit_def mutations_def map_content_updToken
      split: option.splits list.splits)

lemma piv_Open_conn: "piv_Open name w = (Inr yk, w') \<Longrightarrow> yk = name"
  by (auto simp: piv_Open_def Let_def split: option.splits list.splits)

lemma piv_Open_found:
  "piv_Open name w = (Inr yk, w') \<Longrightarrow> \<exists>t. findToken name (readers w) = Some t"
  by (auto simp: piv_Open_def Let_def emit_def split: option.splits list.splits)

lemma open_loop_sameDevice: "sameDevice w (snd (open_loop n err y w))"
proof (induction n arbitrary: err w)
  case 0
  then show ?case by (simp split: option.splits)
next
  case (Suc n)
  show ?case
  proof (cases "piv_Open (card' y) w")
    case (Pair r w1)
    have s1: "sameDevice w w1"
      using piv_Open_sameDevice [of w "card' y"] Pair by simp
    show ?thesis
    proof (cases r)
      case (Inr yk)
      with Pair s1 show ?thesis by simp
    next
      case (Inl e)
      show ?thesis
      proof (cases "isRetryError e")
        case False
        with Pair Inl s1 show ?thesis by simp
      next
        case True
        have s2: "sameDevice w1 (time_Sleep 100 w1)"
          by (simp add: time_Sleep_def sameDevice_emit_quiet)
        have "sameDevice (time_Sleep 100 w1) (snd (open_loop n (Some e) y (time_Sleep 100 w1)))"
          by (rule Suc.IH)
        with s1 s2 have "sameDevice w (snd (open_loop n (Some e) y (time_Sleep 100 w1)))"
          by (blast intro: sameDevice_trans)
        with Pair Inl True show ?thesis by simp
      qed
    qed
  qed
qed

lemma open_loop_conn: "open_loop n err y w = (Inr yk, w') \<Longrightarrow> yk = card' y"
proof (induction n arbitrary: err w)
  case 0
  then show ?case by (simp split: option.splits)
next
  case (Suc n)
  then show ?case
    by (auto split: prod.splits sum.splits if_splits dest: piv_Open_conn)
qed

lemma yubiKey_open_sameDevice: "yubiKey_open y w = (r, w') \<Longrightarrow> sameDevice w w'"
  using open_loop_sameDevice [of w maxRetries None y] by (simp add: yubiKey_open_def)

lemma yubiKey_open_conn: "yubiKey_open y w = (Inr yk, w') \<Longrightarrow> yk = card' y"
  by (simp add: yubiKey_open_def open_loop_conn)


lemma sameDevice_token:
  assumes "sameDevice w w'" and "findToken name (readers w') = Some t'"
  shows "\<exists>t. findToken name (readers w) = Some t \<and> content t = content t'"
  using sameDevice_findToken [OF assms(1), of name] assms(2)
  by (cases "findToken name (readers w)") auto

lemma sameDevice_sym: "sameDevice w w' \<Longrightarrow> sameDevice w' w"
  by (simp add: sameDevice_def)

lemma content_eq_fields:
  assumes "content t = content t'"
  shows "serial t = serial t'" "keys t = keys t'" "certs t = certs t'"
    "attestationCert t = attestationCert t'" "fault t = fault t'"
    "managementKey t = managementKey t'" "keygen t = keygen t'" "reader t = reader t'"
proof -
  have "serial (content t) = serial (content t')" "keys (content t) = keys (content t')"
    "certs (content t) = certs (content t')"
    "attestationCert (content t) = attestationCert (content t')"
    "fault (content t) = fault (content t')"
    "managementKey (content t) = managementKey (content t')"
    "keygen (content t) = keygen (content t')" "reader (content t) = reader (content t')"
    using assms by simp_all
  then show "serial t = serial t'" "keys t = keys t'" "certs t = certs t'"
    "attestationCert t = attestationCert t'" "fault t = fault t'"
    "managementKey t = managementKey t'" "keygen t = keygen t'" "reader t = reader t'"
    by simp_all
qed

lemma onToken_sameDevice:
  assumes same: "sameDevice w w'" and f: "\<And>t t'. content t = content t' \<Longrightarrow> f t = f t'"
  shows "onToken w' yk op f = onToken w yk op f"
proof (cases "findToken yk (readers w')")
  case None
  with sameDevice_findToken [OF same, of yk] have "findToken yk (readers w) = None"
    by simp
  with None show ?thesis by (simp add: onToken_def)
next
  case (Some t')
  from sameDevice_token [OF same Some] obtain t
    where t: "findToken yk (readers w) = Some t" "content t = content t'"
    by blast
  from t(2) have "fault t = fault t'" "f t = f t'"
    by (auto dest: content_eq_fields f)
  with Some t(1) show ?thesis by (simp add: onToken_def split: option.splits)
qed

lemma yk_Serial_sameDevice: "sameDevice w w' \<Longrightarrow> yk_Serial w' yk = yk_Serial w yk"
  unfolding yk_Serial_def by (rule onToken_sameDevice) (auto dest: content_eq_fields)

lemma yk_Certificate_sameDevice:
  "sameDevice w w' \<Longrightarrow> yk_Certificate w' yk slot = yk_Certificate w yk slot"
  unfolding yk_Certificate_def by (rule onToken_sameDevice) (auto dest: content_eq_fields)

lemma yk_Attest_sameDevice: "sameDevice w w' \<Longrightarrow> yk_Attest w' yk slot = yk_Attest w yk slot"
  unfolding yk_Attest_def by (rule onToken_sameDevice) (auto dest: content_eq_fields)

lemma yk_AttestationCertificate_sameDevice:
  "sameDevice w w' \<Longrightarrow> yk_AttestationCertificate w' yk = yk_AttestationCertificate w yk"
  unfolding yk_AttestationCertificate_def
  by (rule onToken_sameDevice) (auto dest: content_eq_fields)

lemma findYubiKeyCards_sameDevice:
  assumes "sameDevice w w'"
  shows "findYubiKeyCards w' = findYubiKeyCards w"
proof -
  have "map reader (map content (readers w')) = map reader (map content (readers w))"
    using assms by (simp add: sameDevice_def)
  then have "map reader (readers w') = map reader (readers w)"
    by (simp add: comp_def)
  moreover have "cardsErr w' = cardsErr w"
    using assms by (simp add: sameDevice_def)
  ultimately show ?thesis
    by (simp add: findYubiKeyCards_def piv_Cards_def split: option.splits)
qed

lemma slotKeyOf_sameDevice:
  assumes "sameDevice w w'"
  shows "slotKeyOf w' name slot = slotKeyOf w name slot"
proof (cases "findToken name (readers w')")
  case None
  with sameDevice_findToken [OF assms, of name] have "findToken name (readers w) = None"
    by simp
  with None show ?thesis by (simp add: slotKeyOf_def)
next
  case (Some t')
  from sameDevice_token [OF assms Some] obtain t
    where "findToken name (readers w) = Some t" "content t = content t'"
    by blast
  with Some show ?thesis by (auto simp: slotKeyOf_def dest: content_eq_fields)
qed

lemma slotCertOf_sameDevice:
  assumes "sameDevice w w'"
  shows "slotCertOf w' name slot = slotCertOf w name slot"
proof (cases "findToken name (readers w')")
  case None
  with sameDevice_findToken [OF assms, of name] have "findToken name (readers w) = None"
    by simp
  with None show ?thesis by (simp add: slotCertOf_def)
next
  case (Some t')
  from sameDevice_token [OF assms Some] obtain t
    where "findToken name (readers w) = Some t" "content t = content t'"
    by blast
  with Some show ?thesis by (auto simp: slotCertOf_def dest: content_eq_fields)
qed

lemma yk_Serial_Inr:
  "yk_Serial w yk = Inr sn \<Longrightarrow> \<exists>t. findToken yk (readers w) = Some t \<and> serial t = sn"
  by (auto simp: yk_Serial_def onToken_def split: option.splits)

lemma newYubiKey_sameDevice: "newYubiKey name w = (r, w') \<Longrightarrow> sameDevice w w'"
  by (auto simp: newYubiKey_def Let_def split: prod.splits sum.splits
      dest: yubiKey_open_sameDevice)

lemma newYubiKey_Inr:
  assumes "newYubiKey name w = (Inr y, w')"
  shows "card' y = name \<and> (\<exists>t. findToken name (readers w) = Some t \<and> serial t = serialNumber y)"
proof -
  from assms obtain yk sn where op: "yubiKey_open \<lparr>card' = name, serialNumber = 0\<rparr> w = (Inr yk, w')"
    and sn: "yk_Serial w' yk = Inr sn" and y: "y = \<lparr>card' = name, serialNumber = sn\<rparr>"
    by (auto simp: newYubiKey_def Let_def split: prod.splits sum.splits)
  from yubiKey_open_conn [OF op] have yk: "yk = name" by simp
  from yubiKey_open_sameDevice [OF op] have same: "sameDevice w w'" .
  from yk_Serial_Inr [OF sn] yk obtain t' where t': "findToken name (readers w') = Some t'" "serial t' = sn"
    by blast
  from sameDevice_token [OF same t'(1)] obtain t
    where "findToken name (readers w) = Some t" "content t = content t'"
    by blast
  with t'(2) y show ?thesis by (auto dest: content_eq_fields)
qed

lemma findYubiKey_loop_sameDevice: "sameDevice w (snd (findYubiKey_loop sn cards w))"
proof (induction cards arbitrary: w)
  case Nil
  show ?case by simp
next
  case (Cons c cards)
  show ?case
  proof (cases "newYubiKey c w")
    case (Pair r w1)
    then have s1: "sameDevice w w1" by (rule newYubiKey_sameDevice)
    from Cons.IH [of w1] s1 have "sameDevice w (snd (findYubiKey_loop sn cards w1))"
      by (blast intro: sameDevice_trans)
    with Pair s1 show ?thesis by (auto split: sum.splits)
  qed
qed

lemma findYubiKey_loop_Inr:
  "findYubiKey_loop sn cards w = (Inr y, w') \<Longrightarrow>
   card' y \<in> set cards \<and> (sn \<noteq> 0 \<longrightarrow> serialNumber y = sn) \<and>
   (\<exists>t. findToken (card' y) (readers w) = Some t \<and> serial t = serialNumber y)"
proof (induction cards arbitrary: w)
  case Nil
  then show ?case by simp
next
  case (Cons c cards)
  obtain r w1 where new: "newYubiKey c w = (r, w1)" by (cases "newYubiKey c w")
  then have s1: "sameDevice w w1" by (rule newYubiKey_sameDevice)
  show ?case
  proof (cases r)
    case (Inl e)
    with new Cons.prems show ?thesis by simp
  next
    case (Inr y1)
    show ?thesis
    proof (cases "sn = 0 \<or> serialNumber y1 = sn")
      case True
      with new Inr Cons.prems have "y = y1" by auto
      with newYubiKey_Inr [of c w y1 w1] new Inr True show ?thesis by auto
    next
      case False
      with new Inr Cons.prems have rec: "findYubiKey_loop sn cards w1 = (Inr y, w')" by auto
      from Cons.IH [OF rec] obtain t1 where ih: "card' y \<in> set cards" "sn \<noteq> 0 \<longrightarrow> serialNumber y = sn"
        "findToken (card' y) (readers w1) = Some t1" "serial t1 = serialNumber y"
        by blast
      from sameDevice_token [OF s1 ih(3)] obtain t
        where "findToken (card' y) (readers w) = Some t" "content t = content t1"
        by blast
      with ih show ?thesis by (auto dest: content_eq_fields)
    qed
  qed
qed

lemma findYubiKey_loop_sameDevice':
  "findYubiKey_loop sn cards w = (r, w') \<Longrightarrow> sameDevice w w'"
  using findYubiKey_loop_sameDevice [of w sn cards] by simp

lemma findYubiKey_sameDevice: "findYubiKey sn w = (r, w') \<Longrightarrow> sameDevice w w'"
  by (auto simp: findYubiKey_def split: sum.splits if_splits
      dest: findYubiKey_loop_sameDevice')

lemma findYubiKey_Inr:
  assumes "findYubiKey sn w = (Inr y, w')"
  shows "(\<exists>cards. findYubiKeyCards w = Inr cards \<and> card' y \<in> set cards) \<and>
    (sn \<noteq> 0 \<longrightarrow> serialNumber y = sn) \<and>
    (\<exists>t. findToken (card' y) (readers w) = Some t \<and> serial t = serialNumber y)"
  using assms findYubiKey_loop_Inr [of sn _ w y w']
  by (auto simp: findYubiKey_def split: sum.splits if_splits)

lemma getPrivateKey_sameDevice: "getPrivateKey y slot w = (r, w') \<Longrightarrow> sameDevice w w'"
  by (auto simp: getPrivateKey_def split: prod.splits sum.splits option.splits if_splits
      dest: yubiKey_open_sameDevice)

lemma getPrivateKey_Inr:
  "getPrivateKey y slot w = (Inr h, w') \<Longrightarrow> yubiKey h = y \<and> pivSlot h = slot"
  by (auto simp: getPrivateKey_def newYubiKeyPrivateKey_def
      split: prod.splits sum.splits option.splits if_splits)

subsection \<open>The retry loop of open\<close>

lemma piv_Open_found_eq:
  assumes "findToken name (readers w) = Some t"
  shows "piv_Open name w =
    (case opens t of
       [] \<Rightarrow> (Inr name, emit (CallOpen name) w)
     | outcome # rest \<Rightarrow>
         ((case outcome of None \<Rightarrow> Inr name | Some e \<Rightarrow> Inl e),
          (emit (CallOpen name) w)\<lparr>readers := updToken name (\<lambda>t. t\<lparr>opens := rest\<rparr>) (readers w)\<rparr>))"
  using assms by (simp add: piv_Open_def Let_def emit_def split: list.splits option.splits)

lemma open_loop_events:
  "findToken (card' y) (readers w) = Some t \<Longrightarrow>
   events (snd (open_loop n err y w)) =
     events w
     @ concat (replicate (length (takeWhile retryOutcome (take n (opens t))))
         [CallOpen (card' y), CallSleep 100])
     @ (if length (takeWhile retryOutcome (take n (opens t))) < n then [CallOpen (card' y)] else [])"
proof (induction n arbitrary: w t err)
  case 0
  then show ?case by (simp split: option.splits)
next
  case (Suc n)
  note tok = Suc.prems
  show ?case
  proof (cases "opens t")
    case Nil
    with tok show ?thesis
      by (simp add: piv_Open_found_eq emit_def)
  next
    case (Cons outcome rest)
    show ?thesis
    proof (cases outcome)
      case None
      with tok Cons show ?thesis
        by (simp add: piv_Open_found_eq emit_def retryOutcome_def)
    next
      case (Some e)
      show ?thesis
      proof (cases "isRetryError e")
        case False
        with tok Cons Some show ?thesis
          by (simp add: piv_Open_found_eq emit_def retryOutcome_def)
      next
        case True
        define w2 where "w2 = time_Sleep 100
          ((emit (CallOpen (card' y)) w)\<lparr>readers := updToken (card' y) (\<lambda>t. t\<lparr>opens := rest\<rparr>) (readers w)\<rparr>)"
        have tok2: "findToken (card' y) (readers w2) = Some (t\<lparr>opens := rest\<rparr>)"
          using tok findToken_reader [OF tok]
          by (simp add: w2_def time_Sleep_def emit_def findToken_updToken)
        have ev2: "events w2 = events w @ [CallOpen (card' y), CallSleep 100]"
          by (simp add: w2_def time_Sleep_def emit_def)
        have step: "open_loop (Suc n) err y w = open_loop n (Some e) y w2"
          using tok Cons Some True by (simp add: piv_Open_found_eq w2_def)
        from Suc.IH [OF tok2, of "Some e"] ev2 step Cons Some True show ?thesis
          by (simp add: retryOutcome_def)
      qed
    qed
  qed
qed

lemma retry_outcome_step:
  fixes s' :: "error option list"
  assumes "retryOutcome (Some e)"
  shows
    "(let script = s'; k = length (takeWhile retryOutcome script) in
      if k < length script then (case script ! k of None \<Rightarrow> Inr c | Some e \<Rightarrow> Inl e)
      else if k < n then Inr c
      else (case n of
              0 \<Rightarrow> (case Some e of None \<Rightarrow> Inl nilError | Some e \<Rightarrow> Inl e)
            | Suc m \<Rightarrow> (case script ! m of None \<Rightarrow> Inl nilError | Some e \<Rightarrow> Inl e))) =
     (let script = Some e # s'; k = length (takeWhile retryOutcome script) in
      if k < length script then (case script ! k of None \<Rightarrow> Inr c | Some e \<Rightarrow> Inl e)
      else if k < Suc n then Inr c
      else (case Suc n of
              0 \<Rightarrow> (case err of None \<Rightarrow> Inl nilError | Some e \<Rightarrow> Inl e)
            | Suc m \<Rightarrow> (case script ! m of None \<Rightarrow> Inl nilError | Some e \<Rightarrow> Inl e)))"
  using assms by (cases n) (simp_all add: Let_def)

lemma open_loop_result:
  "findToken (card' y) (readers w) = Some t \<Longrightarrow>
   fst (open_loop n err y w) =
     (let script = take n (opens t); k = length (takeWhile retryOutcome script) in
      if k < length script then (case script ! k of None \<Rightarrow> Inr (card' y) | Some e \<Rightarrow> Inl e)
      else if k < n then Inr (card' y)
      else (case n of
              0 \<Rightarrow> (case err of None \<Rightarrow> Inl nilError | Some e \<Rightarrow> Inl e)
            | Suc m \<Rightarrow> (case script ! m of None \<Rightarrow> Inl nilError | Some e \<Rightarrow> Inl e)))"
proof (induction n arbitrary: w t err)
  case 0
  then show ?case by (simp add: Wrap_def split: option.splits)
next
  case (Suc n)
  note tok = Suc.prems
  show ?case
  proof (cases "opens t")
    case Nil
    with tok show ?thesis
      by (simp add: piv_Open_found_eq)
  next
    case (Cons outcome rest)
    show ?thesis
    proof (cases outcome)
      case None
      with tok Cons show ?thesis
        by (simp add: piv_Open_found_eq retryOutcome_def)
    next
      case (Some e)
      show ?thesis
      proof (cases "isRetryError e")
        case False
        with tok Cons Some show ?thesis
          by (simp add: piv_Open_found_eq retryOutcome_def Wrap_def)
      next
        case True
        define w2 where "w2 = time_Sleep 100
          ((emit (CallOpen (card' y)) w)\<lparr>readers := updToken (card' y) (\<lambda>t. t\<lparr>opens := rest\<rparr>) (readers w)\<rparr>)"
        have tok2: "findToken (card' y) (readers w2) = Some (t\<lparr>opens := rest\<rparr>)"
          using tok findToken_reader [OF tok]
          by (simp add: w2_def time_Sleep_def emit_def findToken_updToken)
        have step: "open_loop (Suc n) err y w = open_loop n (Some e) y w2"
          using tok Cons Some True by (simp add: piv_Open_found_eq w2_def)
        have ro: "retryOutcome (Some e)"
          using True by (simp add: retryOutcome_def)
        have tk: "take (Suc n) (opens t) = Some e # take n rest"
          using Cons Some by simp
        have rest: "opens (t\<lparr>opens := rest\<rparr>) = rest"
          by simp
        show ?thesis
          unfolding step tk
          by (rule trans [OF Suc.IH [OF tok2, of "Some e", unfolded rest]
                retry_outcome_step [OF ro, of "take n rest" "card' y" n err]])
      qed
    qed
  qed
qed

lemma open_loop_initial_err:
  "open_loop (Suc n) None y w = open_loop (Suc n) (Some e0) y w"
  by simp

lemma yubiKey_open_ready:
  assumes "findToken (card' y) (readers w) = Some t" and "opens t = []"
  shows "yubiKey_open y w = (Inr (card' y), emit (CallOpen (card' y)) w)"
proof -
  have m: "maxRetries = Suc 99" by (simp add: maxRetries_def)
  show ?thesis
    unfolding yubiKey_open_def m
    by (subst open_loop.simps(2)) (simp add: piv_Open_found_eq assms)
qed

lemma takeWhile_stops:
  assumes "length (takeWhile P xs) < length xs"
  shows "\<not> P (xs ! length (takeWhile P xs))"
  using assms by (rule nth_length_takeWhile)

lemma takeWhile_all:
  assumes "length (takeWhile P xs) = length xs" and "i < length xs"
  shows "P (xs ! i)"
proof -
  have "takeWhile P xs = take (length (takeWhile P xs)) xs"
    by (rule takeWhile_eq_take)
  with assms(1) have "takeWhile P xs = xs" by simp
  then have "\<forall>x \<in> set xs. P x" by (simp add: takeWhile_eq_all_conv)
  with assms(2) show ?thesis by simp
qed

lemma open_loop_result_Suc:
  assumes "findToken (card' y) (readers w) = Some t"
    and "script = take (Suc m) (opens t)" and "k = length (takeWhile retryOutcome script)"
  shows "fst (open_loop (Suc m) err y w) =
      (if k < length script then (case script ! k of None \<Rightarrow> Inr (card' y) | Some e \<Rightarrow> Inl e)
       else if k < Suc m then Inr (card' y)
       else (case script ! m of None \<Rightarrow> Inl nilError | Some e \<Rightarrow> Inl e))"
  using open_loop_result [OF assms(1), of "Suc m" err] unfolding assms(2,3)
  by (simp only: Let_def nat.case)

text \<open>
  C8. \<open>open\<close> calls \<open>piv.Open\<close> at most 100 times, sleeping 100 ms after each failed
  attempt, and tries again only after a failure whose message contains the "other
  connections outstanding" text. With \<open>k\<close> the number of such failures at the head of
  the next 100 outcomes of \<open>piv.Open\<close>: the calls made are \<open>k\<close> times an attempt and a
  sleep, then one more attempt if \<open>k < 100\<close>; a failure that does not match is returned
  at once, a success returns the connection, and after 100 matching failures the last
  error is returned.
\<close>

theorem yubiKey_open_bounded_retry:
  assumes "findToken (card' y) (readers w) = Some t"
  shows "let script = take maxRetries (opens t);
             k = length (takeWhile retryOutcome script) in
     maxRetries = 100 \<and> k \<le> maxRetries \<and>
     events (snd (yubiKey_open y w)) =
       events w @ concat (replicate k [CallOpen (card' y), CallSleep 100])
       @ (if k < maxRetries then [CallOpen (card' y)] else []) \<and>
     (\<forall>e. k < length script \<and> script ! k = Some e \<longrightarrow>
        \<not> isRetryError e \<and> fst (yubiKey_open y w) = Inl e) \<and>
     (k < length script \<and> script ! k = None \<or> k = length script \<and> k < maxRetries \<longrightarrow>
        fst (yubiKey_open y w) = Inr (card' y)) \<and>
     (k = maxRetries \<longrightarrow>
        (\<exists>e. script ! (maxRetries - 1) = Some e \<and> isRetryError e \<and>
           fst (yubiKey_open y w) = Inl e))"
proof -
  define script where "script = take maxRetries (opens t)"
  define k where "k = length (takeWhile retryOutcome script)"
  have len: "length script \<le> maxRetries"
    by (simp add: script_def)
  have k_le: "k \<le> length script"
    unfolding k_def by (rule length_takeWhile_le)
  have ev: "events (snd (yubiKey_open y w)) =
       events w @ concat (replicate k [CallOpen (card' y), CallSleep 100])
       @ (if k < maxRetries then [CallOpen (card' y)] else [])"
    unfolding yubiKey_open_def k_def script_def by (rule open_loop_events [OF assms])
  have res: "fst (yubiKey_open y w) =
      (if k < length script then (case script ! k of None \<Rightarrow> Inr (card' y) | Some e \<Rightarrow> Inl e)
       else if k < maxRetries then Inr (card' y)
       else (case script ! 99 of None \<Rightarrow> Inl nilError | Some e \<Rightarrow> Inl e))"
  proof -
    have m: "maxRetries = Suc 99" by (simp add: maxRetries_def)
    show ?thesis
      unfolding yubiKey_open_def m
      by (rule open_loop_result_Suc [OF assms script_def [unfolded m] k_def])
  qed
  have stop: "\<not> isRetryError e \<and> fst (yubiKey_open y w) = Inl e"
    if "k < length script" "script ! k = Some e" for e
  proof -
    from that(1) have "\<not> retryOutcome (script ! k)"
      unfolding k_def by (rule takeWhile_stops)
    with that res show ?thesis by (simp add: retryOutcome_def)
  qed
  have ok: "fst (yubiKey_open y w) = Inr (card' y)"
    if "k < length script \<and> script ! k = None \<or> k = length script \<and> k < maxRetries"
    using that res by auto
  have last: "\<exists>e. script ! (maxRetries - 1) = Some e \<and> isRetryError e \<and>
           fst (yubiKey_open y w) = Inl e" if "k = maxRetries"
  proof -
    from that len k_le have full: "length (takeWhile retryOutcome script) = length script"
      "length script = 100"
      by (simp_all add: k_def maxRetries_def)
    then have "retryOutcome (script ! 99)"
      by (intro takeWhile_all [of retryOutcome script 99]) simp_all
    then obtain e where e: "script ! 99 = Some e" "isRetryError e"
      by (auto simp: retryOutcome_def split: option.splits)
    with res that full show ?thesis
      by (simp add: maxRetries_def k_def)
  qed
  from len k_le have "k \<le> maxRetries" by simp
  with ev stop ok last show ?thesis
    unfolding Let_def script_def [symmetric] k_def [symmetric]
    by (simp add: maxRetries_def)
qed

lemma isRetryError_busyError: "isRetryError busyError"
  by (simp add: isRetryError_def busyError_def retryError_def)

lemma not_isRetryError_resetError: "\<not> isRetryError resetError"
  by (simp add: isRetryError_def resetError_def retryError_def)

lemma findToken_busyWorld:
  "findToken (card' yubiKeyA) (readers (busyWorld script)) =
     Some ((blankToken readerA 12345678)\<lparr>opens := script\<rparr>)"
  by (simp add: busyWorld_def worldOf_def blankToken_def yubiKeyA_def)

theorem yubiKey_open_bounded_retry_witness:
  "findToken (card' yubiKeyA) (readers (busyWorld [Some busyError, Some busyError, None])) =
     Some ((blankToken readerA 12345678)\<lparr>opens := [Some busyError, Some busyError, None]\<rparr>) \<and>
   fst (yubiKey_open yubiKeyA (busyWorld [Some busyError, Some busyError, None])) = Inr readerA \<and>
   events (snd (yubiKey_open yubiKeyA (busyWorld [Some busyError, Some busyError, None]))) =
     [CallOpen readerA, CallSleep 100, CallOpen readerA, CallSleep 100, CallOpen readerA] \<and>
   fst (yubiKey_open yubiKeyA (busyWorld [Some busyError, Some resetError, None])) = Inl resetError \<and>
   events (snd (yubiKey_open yubiKeyA (busyWorld [Some busyError, Some resetError, None]))) =
     [CallOpen readerA, CallSleep 100, CallOpen readerA] \<and>
   fst (yubiKey_open yubiKeyA (busyWorld (replicate 100 (Some busyError) @ [None]))) = Inl busyError \<and>
   events (snd (yubiKey_open yubiKeyA (busyWorld (replicate 100 (Some busyError) @ [None])))) =
     concat (replicate 100 [CallOpen readerA, CallSleep 100])"
proof -
  have ro: "retryOutcome (Some busyError)" "\<not> retryOutcome (Some resetError)" "\<not> retryOutcome None"
    by (simp_all add: retryOutcome_def isRetryError_busyError not_isRetryError_resetError)
  have ev0: "\<And>script. events (busyWorld script) = []"
    by (simp add: busyWorld_def worldOf_def)
  have c: "card' yubiKeyA = readerA"
    by (simp add: yubiKeyA_def)
  from yubiKey_open_bounded_retry [OF findToken_busyWorld [of "[Some busyError, Some busyError, None]"]]
  have one: "fst (yubiKey_open yubiKeyA (busyWorld [Some busyError, Some busyError, None])) = Inr readerA \<and>
   events (snd (yubiKey_open yubiKeyA (busyWorld [Some busyError, Some busyError, None]))) =
     [CallOpen readerA, CallSleep 100, CallOpen readerA, CallSleep 100, CallOpen readerA]"
    by (simp add: Let_def ro ev0 c maxRetries_def)
  from yubiKey_open_bounded_retry [OF findToken_busyWorld [of "[Some busyError, Some resetError, None]"]]
  have two: "fst (yubiKey_open yubiKeyA (busyWorld [Some busyError, Some resetError, None])) = Inl resetError \<and>
   events (snd (yubiKey_open yubiKeyA (busyWorld [Some busyError, Some resetError, None]))) =
     [CallOpen readerA, CallSleep 100, CallOpen readerA]"
    by (simp add: Let_def ro ev0 c maxRetries_def)
  from yubiKey_open_bounded_retry [OF findToken_busyWorld [of "replicate 100 (Some busyError) @ [None]"]]
  have three: "fst (yubiKey_open yubiKeyA (busyWorld (replicate 100 (Some busyError) @ [None]))) = Inl busyError \<and>
   events (snd (yubiKey_open yubiKeyA (busyWorld (replicate 100 (Some busyError) @ [None])))) =
     concat (replicate 100 [CallOpen readerA, CallSleep 100])"
    by (simp add: Let_def ro ev0 c maxRetries_def nth_append)
  from one two three findToken_busyWorld [of "[Some busyError, Some busyError, None]"]
  show ?thesis by simp
qed

subsection \<open>The reuse check\<close>

lemmas world_defs = worldOf_def blankToken_def readerA_def readerB_def yubiKeyA_def
  markerCert_def keyPair_def yubicoAttestation_def foreignCert_def

lemmas call_defs = yk_Serial_def yk_Certificate_def yk_Attest_def yk_AttestationCertificate_def
  piv_Verify_def onToken_def yk_GenerateKey_def yk_PrivateKey_def x509_CreateCertificate_def
  yk_SetCertificate_def generatedPublicKey_def emit_def

lemmas slot_defs = SlotAuthentication_def SlotSignature_def certOrgName_def

lemma isYubiKey_readerA: "Contains (ToLower readerA) PIVCardTypeYubiKey"
  by (simp add: readerA_def ToLower_def lowerChar_def PIVCardTypeYubiKey_def)

lemma isYubiKey_readerB: "Contains (ToLower readerB) PIVCardTypeYubiKey"
  by (simp add: readerB_def ToLower_def lowerChar_def PIVCardTypeYubiKey_def)

lemma readerA_neq_readerB: "readerA \<noteq> readerB"
  by (simp add: readerA_def readerB_def)

lemma getPrivateKey_mismatch:
  assumes op: "yubiKey_open y w = (Inr yk, w1)"
    and cert: "yk_Certificate w1 yk slot = Inr (Some cert)"
    and marked: "Organization cert \<noteq> []" "Organization cert ! 0 = certOrgName"
    and att: "yk_Attest w1 yk slot = Inr slotCert"
    and dev: "yk_AttestationCertificate w1 yk = Inr attCert"
    and ver: "piv_Verify attCert slotCert = Inr u"
    and cmp: "hasEqual (PublicKey cert)"
    and neq: "\<not> Equal (PublicKey cert) (PublicKey slotCert)"
  shows "getPrivateKey y slot w = (Inl (TraceError NotFound slotMismatchMsg), w1)"
  using assms by (simp add: getPrivateKey_def)

lemma getPrivateKey_empty:
  assumes op: "yubiKey_open y w = (Inr yk, w1)"
    and cert: "yk_Certificate w1 yk slot = Inl e"
  shows "getPrivateKey y slot w = (Inl (TraceError NotFound slotEmptyMsg), w1)"
  using assms by (simp add: getPrivateKey_def)

lemma getPrivateKey_unknown:
  assumes op: "yubiKey_open y w = (Inr yk, w1)"
    and cert: "yk_Certificate w1 yk slot = Inr (Some cert)"
    and unmarked: "Organization cert = [] \<or> Organization cert ! 0 \<noteq> certOrgName"
  shows "getPrivateKey y slot w = (Inl (TraceError NotFound slotUnknownMsg), w1)"
  using assms by (auto simp: getPrivateKey_def)

lemma messages_distinct:
  "slotMismatchMsg \<noteq> slotEmptyMsg" "slotMismatchMsg \<noteq> slotUnknownMsg"
  by (simp_all add: slotMismatchMsg_def slotEmptyMsg_def slotUnknownMsg_def)

lemma ex_mismatch:
  "fst (getPrivateKey yubiKeyA SlotAuthentication mismatchWorld) = Inl (TraceError NotFound slotMismatchMsg)"
  by (simp add: getPrivateKey_def mismatchWorld_def world_defs call_defs slot_defs yubiKey_open_ready)

lemma ex_empty:
  "fst (getPrivateKey yubiKeyA SlotAuthentication freshWorld) = Inl (TraceError NotFound slotEmptyMsg)"
  by (simp add: getPrivateKey_def freshWorld_def world_defs call_defs slot_defs yubiKey_open_ready)

lemma ex_foreign:
  "fst (getPrivateKey yubiKeyA SlotAuthentication foreignWorld) = Inl (TraceError NotFound slotUnknownMsg)"
  by (simp add: getPrivateKey_def foreignWorld_def world_defs call_defs slot_defs yubiKey_open_ready)

lemma ex_imported:
  "fst (getPrivateKey yubiKeyA SlotAuthentication importedWorld) =
     Inl (TraceError Other ''attest: key was not generated on the device'')"
  by (simp add: getPrivateKey_def importedWorld_def world_defs call_defs slot_defs yubiKey_open_ready Wrap_def)

text \<open>
  C3 (as amended). When the public key of the stored certificate and the public key of
  the slot's attestation certificate differ, \<open>getPrivateKey\<close> fails with an error of the
  kind \<open>NotFound\<close>: the same kind as for an empty slot and for a slot with an unknown
  certificate. Only the message ("... must be regenerated") tells the three apart.
\<close>

theorem getPrivateKey_mismatch_is_NotFound:
  assumes "yubiKey_open y w = (Inr yk, w1)"
    and "yk_Certificate w1 yk slot = Inr (Some cert)"
    and "Organization cert \<noteq> []" and "Organization cert ! 0 = certOrgName"
    and "yk_Attest w1 yk slot = Inr slotCert"
    and "yk_AttestationCertificate w1 yk = Inr attCert"
    and "piv_Verify attCert slotCert = Inr u"
    and "hasEqual (PublicKey cert)"
    and "\<not> Equal (PublicKey cert) (PublicKey slotCert)"
  shows "getPrivateKey y slot w = (Inl (TraceError NotFound slotMismatchMsg), w1) \<and>
    IsNotFound (TraceError NotFound slotMismatchMsg) \<and>
    kindOf (TraceError NotFound slotMismatchMsg) = kindOf (TraceError NotFound slotEmptyMsg) \<and>
    kindOf (TraceError NotFound slotMismatchMsg) = kindOf (TraceError NotFound slotUnknownMsg) \<and>
    slotMismatchMsg \<noteq> slotEmptyMsg \<and> slotMismatchMsg \<noteq> slotUnknownMsg"
  using getPrivateKey_mismatch [OF assms] messages_distinct by (simp add: IsNotFound_def)

theorem getPrivateKey_mismatch_is_NotFound_witness:
  "yubiKey_open yubiKeyA mismatchWorld = (Inr readerA, emit (CallOpen readerA) mismatchWorld) \<and>
   yk_Certificate (emit (CallOpen readerA) mismatchWorld) readerA SlotAuthentication =
     Inr (Some (markerCert (ECDSAPublicKey 7))) \<and>
   Organization (markerCert (ECDSAPublicKey 7)) = [certOrgName] \<and>
   yk_Attest (emit (CallOpen readerA) mismatchWorld) readerA SlotAuthentication =
     Inr \<lparr>Organization = [], OrganizationalUnit = [], PublicKey = ECDSAPublicKey 8,
          Issuer = DeviceAttestation\<rparr> \<and>
   yk_AttestationCertificate (emit (CallOpen readerA) mismatchWorld) readerA = Inr yubicoAttestation \<and>
   getPrivateKey yubiKeyA SlotAuthentication mismatchWorld =
     (Inl (TraceError NotFound slotMismatchMsg), emit (CallOpen readerA) mismatchWorld)"
proof -
  let ?w1 = "emit (CallOpen readerA) mismatchWorld"
  let ?slotCert = "\<lparr>Organization = [], OrganizationalUnit = [], PublicKey = ECDSAPublicKey 8,
          Issuer = DeviceAttestation\<rparr>"
  have op: "yubiKey_open yubiKeyA mismatchWorld = (Inr readerA, ?w1)"
    by (simp add: mismatchWorld_def world_defs yubiKey_open_ready)
  have cert: "yk_Certificate ?w1 readerA SlotAuthentication = Inr (Some (markerCert (ECDSAPublicKey 7)))"
    by (simp add: mismatchWorld_def world_defs call_defs slot_defs)
  have org: "Organization (markerCert (ECDSAPublicKey 7)) \<noteq> []"
    "Organization (markerCert (ECDSAPublicKey 7)) ! 0 = certOrgName"
    by (simp_all add: markerCert_def)
  have att: "yk_Attest ?w1 readerA SlotAuthentication = Inr ?slotCert"
    by (simp add: mismatchWorld_def world_defs call_defs slot_defs)
  have dev: "yk_AttestationCertificate ?w1 readerA = Inr yubicoAttestation"
    by (simp add: mismatchWorld_def world_defs call_defs)
  have ver: "piv_Verify yubicoAttestation ?slotCert = Inr ()"
    by (simp add: piv_Verify_def yubicoAttestation_def)
  have cmp: "hasEqual (PublicKey (markerCert (ECDSAPublicKey 7)))"
    "\<not> Equal (PublicKey (markerCert (ECDSAPublicKey 7))) (PublicKey ?slotCert)"
    by (simp_all add: markerCert_def)
  from getPrivateKey_mismatch_is_NotFound [OF op cert org att dev ver cmp]
  show ?thesis
    using op cert att dev by (simp add: markerCert_def)
qed

theorem getPrivateKey_mismatch_kind_counterexample:
  "slotCertOf mismatchWorld readerA SlotAuthentication = Some (markerCert (ECDSAPublicKey 7)) \<and>
   slotKeyOf mismatchWorld readerA SlotAuthentication = Some (keyPair (ECDSAPublicKey 8) True) \<and>
   fst (getPrivateKey yubiKeyA SlotAuthentication mismatchWorld) =
     Inl (TraceError NotFound slotMismatchMsg) \<and>
   slotCertOf freshWorld readerA SlotAuthentication = None \<and>
   fst (getPrivateKey yubiKeyA SlotAuthentication freshWorld) =
     Inl (TraceError NotFound slotEmptyMsg) \<and>
   kindOf (TraceError NotFound slotMismatchMsg) = kindOf (TraceError NotFound slotEmptyMsg)"
proof -
  have "slotCertOf mismatchWorld readerA SlotAuthentication = Some (markerCert (ECDSAPublicKey 7))"
    "slotKeyOf mismatchWorld readerA SlotAuthentication = Some (keyPair (ECDSAPublicKey 8) True)"
    "slotCertOf freshWorld readerA SlotAuthentication = None"
    by (simp_all add: slotCertOf_def slotKeyOf_def mismatchWorld_def freshWorld_def worldOf_def
        blankToken_def slot_defs)
  with ex_mismatch ex_empty show ?thesis by simp
qed

subsection \<open>Generating a key\<close>

lemma findToken_updToken_other:
  "name \<noteq> other \<Longrightarrow> (\<And>t. reader (f t) = reader t) \<Longrightarrow>
   findToken name (updToken other f ts) = findToken name ts"
  by (induction ts) auto

lemma mutations_emit [simp]:
  "mutations (emit ev w) = mutations w @ (if isMutation ev then [ev] else [])"
  by (simp add: mutations_def emit_def)

lemma mutations_readers_update [simp]: "mutations (w\<lparr>readers := ts\<rparr>) = mutations w"
  by (simp add: mutations_def)

lemma yk_GenerateKey_Inr:
  assumes "yk_GenerateKey yk key slot opts w = (Inr pk, w2)"
  shows "\<exists>t. findToken yk (readers w) = Some t \<and> pk = generatedPublicKey (Algorithm opts) (keygen t) \<and>
    w2 = (emit (CallGenerateKey yk (Key slot)) w)\<lparr>readers :=
      updToken yk (\<lambda>t. t\<lparr>keys := (keys t)(Key slot \<mapsto>
          \<lparr>keyPublic = pk, keyGenerated = True, keyOpts = opts\<rparr>), keygen := Suc (keygen t)\<rparr>)
        (readers w)\<rparr>"
  using assms
  by (auto simp: yk_GenerateKey_def Let_def emit_def split: option.splits if_splits)

lemma yk_GenerateKey_mutations:
  "mutations (snd (yk_GenerateKey yk key slot opts w)) = mutations w @ [CallGenerateKey yk (Key slot)]"
  by (auto simp: yk_GenerateKey_def Let_def split: option.splits)

lemma yk_SetCertificate_Inr:
  assumes "yk_SetCertificate yk key slot cert w = (Inr u, w3)"
  shows "\<exists>t. findToken yk (readers w) = Some t \<and>
    w3 = (emit (CallSetCertificate yk (Key slot)) w)\<lparr>readers :=
      updToken yk (\<lambda>t. t\<lparr>certs := (certs t)(Object slot \<mapsto> cert)\<rparr>) (readers w)\<rparr>"
  using assms
  by (auto simp: yk_SetCertificate_def Let_def emit_def split: option.splits if_splits)

lemma yk_SetCertificate_mutations:
  "mutations (snd (yk_SetCertificate yk key slot cert w)) =
     mutations w @ [CallSetCertificate yk (Key slot)]"
  by (auto simp: yk_SetCertificate_def Let_def split: option.splits)

lemma selfSigned_Inr:
  "selfSignedTeleportClientCertificate w priv pk = Inr cert \<Longrightarrow>
   cert = \<lparr>Organization = [certOrgName], OrganizationalUnit = [apiVersion w], PublicKey = pk,
           Issuer = SelfSigned\<rparr>"
  by (auto simp: selfSignedTeleportClientCertificate_def x509_CreateCertificate_def onToken_def
      Let_def split: sum.splits option.splits)

lemma generatePrivateKey_Inr_state:
  assumes gen: "generatePrivateKey y slot tp w = (Inr h, w3)"
  shows "h = \<lparr>yubiKey = y, pivSlot = slot, pub = pub h\<rparr> \<and> hasEqual (pub h) \<and>
     slotKeyOf w3 (card' y) slot =
       Some \<lparr>keyPublic = pub h, keyGenerated = True,
             keyOpts = \<lparr>Algorithm = AlgorithmEC256, PINPolicy = PINPolicyNever, TouchPolicy = tp\<rparr>\<rparr> \<and>
     slotCertOf w3 (card' y) slot =
       Some \<lparr>Organization = [certOrgName], OrganizationalUnit = [apiVersion w],
             PublicKey = pub h, Issuer = SelfSigned\<rparr> \<and>
     mutations w3 =
       mutations w @ [CallGenerateKey (card' y) (Key slot), CallSetCertificate (card' y) (Key slot)]"
proof -
  let ?opts = "\<lparr>Algorithm = AlgorithmEC256, PINPolicy = PINPolicyNever, TouchPolicy = tp\<rparr>"
  from gen obtain yk w1 pk w2 priv cert u
    where op: "yubiKey_open y w = (Inr yk, w1)"
      and gk: "yk_GenerateKey yk DefaultManagementKey slot ?opts w1 = (Inr pk, w2)"
      and pr: "yk_PrivateKey yk slot pk = Inr priv"
      and ss: "selfSignedTeleportClientCertificate w2 priv pk = Inr cert"
      and sc: "yk_SetCertificate yk DefaultManagementKey slot cert w2 = (Inr u, w3)"
      and h: "h = \<lparr>yubiKey = y, pivSlot = slot, pub = pk\<rparr>"
    by (auto simp: generatePrivateKey_def Let_def newYubiKeyPrivateKey_def
        split: prod.splits sum.splits)
  from yubiKey_open_conn [OF op] have yk: "yk = card' y" .
  from yubiKey_open_sameDevice [OF op] have same: "sameDevice w w1" .
  from yk_GenerateKey_Inr [OF gk] obtain t where t: "findToken yk (readers w1) = Some t"
    and w2: "w2 = (emit (CallGenerateKey yk (Key slot)) w1)\<lparr>readers :=
      updToken yk (\<lambda>t. t\<lparr>keys := (keys t)(Key slot \<mapsto>
          \<lparr>keyPublic = pk, keyGenerated = True, keyOpts = ?opts\<rparr>), keygen := Suc (keygen t)\<rparr>)
        (readers w1)\<rparr>"
    by blast
  let ?store = "\<lambda>t. t\<lparr>keys := (keys t)(Key slot \<mapsto>
          \<lparr>keyPublic = pk, keyGenerated = True, keyOpts = ?opts\<rparr>), keygen := Suc (keygen t)\<rparr>"
  have rt: "reader t = yk" using t by (rule findToken_reader)
  have t2: "findToken yk (readers w2) = Some (?store t)"
    using t rt by (simp add: w2 findToken_updToken)
  have api: "apiVersion w2 = apiVersion w"
    using same by (simp add: w2 emit_def sameDevice_def)
  from selfSigned_Inr [OF ss] api
  have cert: "cert = \<lparr>Organization = [certOrgName], OrganizationalUnit = [apiVersion w],
      PublicKey = pk, Issuer = SelfSigned\<rparr>"
    by simp
  from yk_SetCertificate_Inr [OF sc]
  have w3: "w3 = (emit (CallSetCertificate yk (Key slot)) w2)\<lparr>readers :=
      updToken yk (\<lambda>t. t\<lparr>certs := (certs t)(Object slot \<mapsto> cert)\<rparr>) (readers w2)\<rparr>"
    by blast
  have t3: "findToken yk (readers w3) =
      Some ((?store t)\<lparr>certs := (certs (?store t))(Object slot \<mapsto> cert)\<rparr>)"
    using t2 rt by (simp add: w3 findToken_updToken)
  have mut: "mutations w3 = mutations w @ [CallGenerateKey yk (Key slot), CallSetCertificate yk (Key slot)]"
    using same by (simp add: w3 w2 sameDevice_def)
  have eq: "hasEqual pk"
    using pr by (auto simp: yk_PrivateKey_def split: if_splits)
  from t3 mut eq show ?thesis
    by (simp add: h yk [symmetric] slotKeyOf_def slotCertOf_def cert)
qed

lemma Equal_refl: "hasEqual k \<Longrightarrow> Equal k k"
  by (cases k) auto

lemma getPrivateKey_reuse:
  assumes op: "yubiKey_open y w = (Inr yk, w1)"
    and tok: "findToken (card' y) (readers w) = Some t" and ok: "answersAttestation t"
    and key: "keys t (Key slot) = Some k" and gen: "keyGenerated k"
    and cert: "certs t (Object slot) = Some c"
    and org: "Organization c \<noteq> []" "Organization c ! 0 = certOrgName"
    and cmp: "hasEqual (PublicKey c)" "Equal (PublicKey c) (keyPublic k)"
  shows "getPrivateKey y slot w = (Inr \<lparr>yubiKey = y, pivSlot = slot, pub = keyPublic k\<rparr>, w1)"
proof -
  from yubiKey_open_conn [OF op] have yk: "yk = card' y" .
  from yubiKey_open_sameDevice [OF op] have same: "sameDevice w w1" .
  from ok obtain att where att: "attestationCert t = Some att" "Issuer att = YubicoRoot"
    and nf: "fault t OpCertificate = None" "fault t OpAttest = None"
      "fault t OpAttestationCertificate = None"
    by (auto simp: answersAttestation_def split: option.splits)
  have c1: "yk_Certificate w1 yk slot = Inr (Some c)"
    using yk_Certificate_sameDevice [OF same, of yk slot] tok nf cert
    by (simp add: yk yk_Certificate_def onToken_def)
  have c2: "yk_Attest w1 yk slot =
      Inr \<lparr>Organization = [], OrganizationalUnit = [], PublicKey = keyPublic k,
           Issuer = DeviceAttestation\<rparr>"
    using yk_Attest_sameDevice [OF same, of yk slot] tok nf key gen
    by (simp add: yk yk_Attest_def onToken_def)
  have c3: "yk_AttestationCertificate w1 yk = Inr att"
    using yk_AttestationCertificate_sameDevice [OF same, of yk] tok nf att
    by (simp add: yk yk_AttestationCertificate_def onToken_def)
  from op c1 c2 c3 att org cmp show ?thesis
    by (simp add: getPrivateKey_def piv_Verify_def newYubiKeyPrivateKey_def)
qed

subsection \<open>Runs on the example environments\<close>

lemmas run_defs = GetOrGenerateYubiKeyPrivateKey_def findYubiKey_def findYubiKeyCards_def
  piv_Cards_def newYubiKey_def getPrivateKey_def generatePrivateKey_def
  selfSignedTeleportClientCertificate_def wrapKey_def keyPEM_def json_Marshal_def
  NewPrivateKey_def newYubiKeyPrivateKey_def resolveByTouchRequirement_def Wrap_def Let_def
  isYubiKey_readerA [unfolded readerA_def] isYubiKey_readerB [unfolded readerB_def]
  yubiKey_open_ready fmtD.simps pivYubiKeyPrivateKeyType_def

lemma run_imported:
  \<open>GetOrGenerateYubiKeyPrivateKey False importedWorld =
    (Inr \<lparr>Signer = \<lparr>yubiKey = yubiKeyA, pivSlot = SlotAuthentication, pub = ECDSAPublicKey 8\<rparr>,
          privKeyPEM = \<lparr>Type = ''PIV YUBIKEY PRIVATE KEY'', Headers = [],
                         Bytes = ''{"serial_number":12345678,"slot_key":154}''\<rparr>\<rparr>,
     worldOf [(blankToken readerA 12345678)
       \<lparr>keys := (\<lambda>k. None)(0x9a \<mapsto> keyPair (ECDSAPublicKey 8) True),
        certs := (\<lambda>k. None)(0x5fc105 \<mapsto> markerCert (ECDSAPublicKey 8)), keygen := 9\<rparr>]
       \<lparr>events := [CallOpen readerA, CallOpen readerA, CallOpen readerA,
                   CallGenerateKey readerA 0x9a, CallSetCertificate readerA 0x9a]\<rparr>)\<close>
  by (simp add: importedWorld_def run_defs world_defs call_defs slot_defs)

lemma run_foreign:
  \<open>GetOrGenerateYubiKeyPrivateKey False foreignWorld =
    (Inr \<lparr>Signer = \<lparr>yubiKey = yubiKeyA, pivSlot = SlotAuthentication, pub = ECDSAPublicKey 8\<rparr>,
          privKeyPEM = \<lparr>Type = ''PIV YUBIKEY PRIVATE KEY'', Headers = [],
                         Bytes = ''{"serial_number":12345678,"slot_key":154}''\<rparr>\<rparr>,
     worldOf [(blankToken readerA 12345678)
       \<lparr>keys := (\<lambda>k. None)(0x9a \<mapsto> keyPair (ECDSAPublicKey 8) True),
        certs := (\<lambda>k. None)(0x5fc105 \<mapsto> markerCert (ECDSAPublicKey 8)), keygen := 9\<rparr>]
       \<lparr>events := [CallOpen readerA, CallOpen readerA, CallOpen readerA,
                   CallGenerateKey readerA 0x9a, CallSetCertificate readerA 0x9a]\<rparr>)\<close>
  by (simp add: foreignWorld_def run_defs world_defs call_defs slot_defs)

lemma find_imported:
  "findYubiKey 0 importedWorld = (Inr yubiKeyA, emit (CallOpen readerA) importedWorld)"
  by (simp add: importedWorld_def run_defs world_defs call_defs slot_defs)

subsection \<open>The provisioner\<close>

lemma wrapKey_world: "snd (wrapKey priv w) = w"
  by (simp add: wrapKey_def keyPEM_def json_Marshal_def NewPrivateKey_def)

lemma wrapKey_Signer: "\<exists>pk. wrapKey priv w = (Inr pk, w) \<and> Signer pk = priv"
  by (simp add: wrapKey_def keyPEM_def json_Marshal_def NewPrivateKey_def)

lemma GetOrGenerate_unfold:
  assumes "findYubiKey 0 w = (Inr y, w1)"
    and "resolveByTouchRequirement touchRequired = (slot, touchPolicy)"
  shows "GetOrGenerateYubiKeyPrivateKey touchRequired w =
    (case getPrivateKey y slot w1 of
       (Inr priv, w2) \<Rightarrow> wrapKey priv w2
     | (Inl err, w2) \<Rightarrow>
         (case generatePrivateKey y slot touchPolicy w2 of
            (Inl err2, w3) \<Rightarrow> (Inl err2, w3)
          | (Inr priv, w3) \<Rightarrow> wrapKey priv w3))"
  using assms
  by (simp add: GetOrGenerateYubiKeyPrivateKey_def Wrap_def split: prod.splits sum.splits)

lemma generatePrivateKey_calls:
  assumes "yubiKey_open y w = (Inr yk, w1)"
  shows "\<exists>rest. mutations (snd (generatePrivateKey y slot tp w)) =
    mutations w @ CallGenerateKey (card' y) (Key slot) # rest"
proof -
  let ?opts = "\<lparr>Algorithm = AlgorithmEC256, PINPolicy = PINPolicyNever, TouchPolicy = tp\<rparr>"
  from yubiKey_open_conn [OF assms] have yk: "yk = card' y" .
  from yubiKey_open_sameDevice [OF assms] have m1: "mutations w1 = mutations w"
    by (simp add: sameDevice_def)
  obtain r w2 where gk: "yk_GenerateKey yk DefaultManagementKey slot ?opts w1 = (r, w2)"
    by (cases "yk_GenerateKey yk DefaultManagementKey slot ?opts w1")
  from yk_GenerateKey_mutations [of yk DefaultManagementKey slot ?opts w1] gk m1
  have m2: "mutations w2 = mutations w @ [CallGenerateKey yk (Key slot)]"
    by simp
  show ?thesis
  proof (cases "\<exists>pk priv cert. r = Inr pk \<and> yk_PrivateKey yk slot pk = Inr priv \<and>
      selfSignedTeleportClientCertificate w2 priv pk = Inr cert")
    case True
    then obtain pk priv cert where ok: "r = Inr pk" "yk_PrivateKey yk slot pk = Inr priv"
      "selfSignedTeleportClientCertificate w2 priv pk = Inr cert"
      by blast
    obtain r3 w3 where sc: "yk_SetCertificate yk DefaultManagementKey slot cert w2 = (r3, w3)"
      by (cases "yk_SetCertificate yk DefaultManagementKey slot cert w2")
    from yk_SetCertificate_mutations [of yk DefaultManagementKey slot cert w2] sc m2
    have "mutations w3 = mutations w @ [CallGenerateKey yk (Key slot), CallSetCertificate yk (Key slot)]"
      by simp
    moreover have "snd (generatePrivateKey y slot tp w) = w3"
      using assms gk ok sc
      by (simp add: generatePrivateKey_def Let_def newYubiKeyPrivateKey_def split: sum.splits)
    ultimately show ?thesis by (simp add: yk)
  next
    case False
    then have "snd (generatePrivateKey y slot tp w) = w2"
      using assms gk
      by (auto simp: generatePrivateKey_def Let_def split: sum.splits prod.splits)
    with m2 show ?thesis by (simp add: yk)
  qed
qed

text \<open>
  C1 (as amended). In \<open>GetOrGenerateYubiKeyPrivateKey\<close> every failure of the reuse check
  (\<open>getPrivateKey\<close>), whatever its kind, is dropped and followed by \<open>generatePrivateKey\<close>
  on the same slot, whose outcome is returned; once the connection for it opens,
  \<open>GenerateKey\<close> is called on the slot. Generation occurs only when the reuse check
  fails: when it succeeds its key is returned and nothing is written.
\<close>

theorem reuse_failure_always_generates:
  assumes "findYubiKey 0 w = (Inr y, w1)"
    and "resolveByTouchRequirement touchRequired = (slot, touchPolicy)"
  shows
    "(\<forall>e w2. getPrivateKey y slot w1 = (Inl e, w2) \<longrightarrow>
        GetOrGenerateYubiKeyPrivateKey touchRequired w =
          (case generatePrivateKey y slot touchPolicy w2 of
             (Inl e2, w3) \<Rightarrow> (Inl e2, w3)
           | (Inr priv, w3) \<Rightarrow> wrapKey priv w3) \<and>
        (\<forall>yk w3. yubiKey_open y w2 = (Inr yk, w3) \<longrightarrow>
           (\<exists>rest. mutations (snd (GetOrGenerateYubiKeyPrivateKey touchRequired w)) =
              mutations w @ CallGenerateKey (card' y) (Key slot) # rest))) \<and>
     (\<forall>priv w2. getPrivateKey y slot w1 = (Inr priv, w2) \<longrightarrow>
        GetOrGenerateYubiKeyPrivateKey touchRequired w = wrapKey priv w2 \<and>
        mutations (snd (GetOrGenerateYubiKeyPrivateKey touchRequired w)) = mutations w)"
proof (intro conjI allI impI)
  fix e w2
  assume get: "getPrivateKey y slot w1 = (Inl e, w2)"
  show run: "GetOrGenerateYubiKeyPrivateKey touchRequired w =
      (case generatePrivateKey y slot touchPolicy w2 of
         (Inl e2, w3) \<Rightarrow> (Inl e2, w3)
       | (Inr priv, w3) \<Rightarrow> wrapKey priv w3)"
    using GetOrGenerate_unfold [OF assms] get by simp
  fix yk w3
  assume op: "yubiKey_open y w2 = (Inr yk, w3)"
  have "mutations w2 = mutations w"
    using findYubiKey_sameDevice [OF assms(1)] getPrivateKey_sameDevice [OF get]
    by (simp add: sameDevice_def)
  moreover have "snd (GetOrGenerateYubiKeyPrivateKey touchRequired w) =
      snd (generatePrivateKey y slot touchPolicy w2)"
    unfolding run by (simp add: wrapKey_world split: prod.splits sum.splits)
  ultimately show "\<exists>rest. mutations (snd (GetOrGenerateYubiKeyPrivateKey touchRequired w)) =
      mutations w @ CallGenerateKey (card' y) (Key slot) # rest"
    using generatePrivateKey_calls [OF op, of slot touchPolicy] by simp
next
  fix priv w2
  assume get: "getPrivateKey y slot w1 = (Inr priv, w2)"
  show run: "GetOrGenerateYubiKeyPrivateKey touchRequired w = wrapKey priv w2"
    using GetOrGenerate_unfold [OF assms] get by simp
  have "mutations w2 = mutations w"
    using findYubiKey_sameDevice [OF assms(1)] getPrivateKey_sameDevice [OF get]
    by (simp add: sameDevice_def)
  then show "mutations (snd (GetOrGenerateYubiKeyPrivateKey touchRequired w)) = mutations w"
    unfolding run by (simp add: wrapKey_world)
qed

lemma get_imported:
  "getPrivateKey yubiKeyA SlotAuthentication (emit (CallOpen readerA) importedWorld) =
     (Inl (TraceError Other ''attest: key was not generated on the device''),
      emit (CallOpen readerA) (emit (CallOpen readerA) importedWorld))"
  by (simp add: importedWorld_def run_defs world_defs call_defs slot_defs)

lemma find_provisioned:
  "findYubiKey 0 provisionedWorld = (Inr yubiKeyA, emit (CallOpen readerA) provisionedWorld)"
  by (simp add: provisionedWorld_def run_defs world_defs call_defs slot_defs)

lemma get_provisioned:
  "getPrivateKey yubiKeyA SlotAuthentication (emit (CallOpen readerA) provisionedWorld) =
     (Inr \<lparr>yubiKey = yubiKeyA, pivSlot = SlotAuthentication, pub = ECDSAPublicKey 7\<rparr>,
      emit (CallOpen readerA) (emit (CallOpen readerA) provisionedWorld))"
  by (simp add: provisionedWorld_def run_defs world_defs call_defs slot_defs)

lemma resolve_False: "resolveByTouchRequirement False = (SlotAuthentication, TouchPolicyNever)"
  by (simp add: resolveByTouchRequirement_def)

theorem reuse_failure_always_generates_witness:
  "findYubiKey 0 importedWorld = (Inr yubiKeyA, emit (CallOpen readerA) importedWorld) \<and>
   resolveByTouchRequirement False = (SlotAuthentication, TouchPolicyNever) \<and>
   getPrivateKey yubiKeyA SlotAuthentication (emit (CallOpen readerA) importedWorld) =
     (Inl (TraceError Other ''attest: key was not generated on the device''),
      emit (CallOpen readerA) (emit (CallOpen readerA) importedWorld)) \<and>
   GetOrGenerateYubiKeyPrivateKey False importedWorld =
     (case generatePrivateKey yubiKeyA SlotAuthentication TouchPolicyNever
             (emit (CallOpen readerA) (emit (CallOpen readerA) importedWorld)) of
        (Inl e2, w3) \<Rightarrow> (Inl e2, w3)
      | (Inr priv, w3) \<Rightarrow> wrapKey priv w3) \<and>
   mutations (snd (GetOrGenerateYubiKeyPrivateKey False importedWorld)) =
     [CallGenerateKey readerA 0x9a, CallSetCertificate readerA 0x9a] \<and>
   findYubiKey 0 provisionedWorld = (Inr yubiKeyA, emit (CallOpen readerA) provisionedWorld) \<and>
   getPrivateKey yubiKeyA SlotAuthentication (emit (CallOpen readerA) provisionedWorld) =
     (Inr \<lparr>yubiKey = yubiKeyA, pivSlot = SlotAuthentication, pub = ECDSAPublicKey 7\<rparr>,
      emit (CallOpen readerA) (emit (CallOpen readerA) provisionedWorld)) \<and>
   GetOrGenerateYubiKeyPrivateKey False provisionedWorld =
     wrapKey \<lparr>yubiKey = yubiKeyA, pivSlot = SlotAuthentication, pub = ECDSAPublicKey 7\<rparr>
       (emit (CallOpen readerA) (emit (CallOpen readerA) provisionedWorld)) \<and>
   mutations (snd (GetOrGenerateYubiKeyPrivateKey False provisionedWorld)) = []"
proof -
  have m0: "mutations importedWorld = []" "mutations provisionedWorld = []"
    by (simp_all add: mutations_def importedWorld_def provisionedWorld_def worldOf_def)
  have mi: "mutations (snd (GetOrGenerateYubiKeyPrivateKey False importedWorld)) =
     [CallGenerateKey readerA 0x9a, CallSetCertificate readerA 0x9a]"
    by (simp add: run_imported mutations_def worldOf_def)
  from reuse_failure_always_generates [OF find_imported resolve_False] get_imported
  have a: "GetOrGenerateYubiKeyPrivateKey False importedWorld =
     (case generatePrivateKey yubiKeyA SlotAuthentication TouchPolicyNever
             (emit (CallOpen readerA) (emit (CallOpen readerA) importedWorld)) of
        (Inl e2, w3) \<Rightarrow> (Inl e2, w3)
      | (Inr priv, w3) \<Rightarrow> wrapKey priv w3)"
    by blast
  note prov = reuse_failure_always_generates [OF find_provisioned resolve_False]
  from prov get_provisioned
  have b1: "GetOrGenerateYubiKeyPrivateKey False provisionedWorld =
     wrapKey \<lparr>yubiKey = yubiKeyA, pivSlot = SlotAuthentication, pub = ECDSAPublicKey 7\<rparr>
       (emit (CallOpen readerA) (emit (CallOpen readerA) provisionedWorld))"
    by blast
  from prov get_provisioned
  have "mutations (snd (GetOrGenerateYubiKeyPrivateKey False provisionedWorld)) =
     mutations provisionedWorld"
    by blast
  then have b2: "mutations (snd (GetOrGenerateYubiKeyPrivateKey False provisionedWorld)) = []"
    using m0(2) by (rule trans)
  show ?thesis
    by (intro conjI)
      (rule find_imported resolve_False get_imported a mi find_provisioned get_provisioned b1 b2)+
qed

theorem attestation_failure_regenerates_counterexample:
  \<open>fst (findYubiKey 0 importedWorld) = Inr yubiKeyA \<and>
   fst (getPrivateKey yubiKeyA SlotAuthentication (snd (findYubiKey 0 importedWorld))) =
     Inl (TraceError Other ''attest: key was not generated on the device'') \<and>
   \<not> IsNotFound (TraceError Other ''attest: key was not generated on the device'') \<and>
   fst (GetOrGenerateYubiKeyPrivateKey False importedWorld) =
     Inr \<lparr>Signer = \<lparr>yubiKey = yubiKeyA, pivSlot = SlotAuthentication, pub = ECDSAPublicKey 8\<rparr>,
          privKeyPEM = \<lparr>Type = ''PIV YUBIKEY PRIVATE KEY'', Headers = [],
                         Bytes = ''{"serial_number":12345678,"slot_key":154}''\<rparr>\<rparr> \<and>
   mutations (snd (GetOrGenerateYubiKeyPrivateKey False importedWorld)) =
     [CallGenerateKey readerA 0x9a, CallSetCertificate readerA 0x9a] \<and>
   slotKeyOf importedWorld readerA SlotAuthentication = Some (keyPair (ECDSAPublicKey 7) False) \<and>
   slotKeyOf (snd (GetOrGenerateYubiKeyPrivateKey False importedWorld)) readerA SlotAuthentication =
     Some (keyPair (ECDSAPublicKey 8) True)\<close>
proof -
  have "slotKeyOf importedWorld readerA SlotAuthentication = Some (keyPair (ECDSAPublicKey 7) False)"
    by (simp add: slotKeyOf_def importedWorld_def worldOf_def blankToken_def slot_defs)
  moreover have "slotKeyOf (snd (GetOrGenerateYubiKeyPrivateKey False importedWorld)) readerA
      SlotAuthentication = Some (keyPair (ECDSAPublicKey 8) True)"
    by (simp add: run_imported slotKeyOf_def worldOf_def blankToken_def slot_defs)
  moreover have "mutations (snd (GetOrGenerateYubiKeyPrivateKey False importedWorld)) =
     [CallGenerateKey readerA 0x9a, CallSetCertificate readerA 0x9a]"
    by (simp add: run_imported mutations_def worldOf_def)
  ultimately show ?thesis
    using find_imported get_imported run_imported by (simp add: IsNotFound_def)
qed

text \<open>
  C2 (as amended). For a slot whose stored certificate has an organization field that is
  empty or whose first entry is not "teleport", the key of the slot is not reused: the
  reuse check fails with \<open>NotFound\<close> and changes nothing on the token. The request does
  not fail there: \<open>GetOrGenerateYubiKeyPrivateKey\<close> goes on to \<open>generatePrivateKey\<close> on
  that slot and returns its outcome, and when the generation succeeds the slot's key pair
  has been replaced by the new one and its certificate by the marker certificate (one
  \<open>GenerateKey\<close> and one \<open>SetCertificate\<close>).
\<close>

theorem unmarked_slot_is_regenerated:
  assumes "findYubiKey 0 w = (Inr y, w1)"
    and "resolveByTouchRequirement touchRequired = (slot, touchPolicy)"
    and "yubiKey_open y w1 = (Inr yk, w2)"
    and "yk_Certificate w (card' y) slot = Inr (Some cert)"
    and "Organization cert = [] \<or> Organization cert ! 0 \<noteq> certOrgName"
  shows
    "getPrivateKey y slot w1 = (Inl (TraceError NotFound slotUnknownMsg), w2) \<and>
     sameDevice w w2 \<and>
     GetOrGenerateYubiKeyPrivateKey touchRequired w =
       (case generatePrivateKey y slot touchPolicy w2 of
          (Inl e2, w3) \<Rightarrow> (Inl e2, w3)
        | (Inr priv, w3) \<Rightarrow> wrapKey priv w3) \<and>
     (\<forall>priv w3. generatePrivateKey y slot touchPolicy w2 = (Inr priv, w3) \<longrightarrow>
        (\<exists>pk. GetOrGenerateYubiKeyPrivateKey touchRequired w = (Inr pk, w3) \<and> Signer pk = priv) \<and>
        slotKeyOf w3 (card' y) slot =
          Some \<lparr>keyPublic = pub priv, keyGenerated = True,
                keyOpts = \<lparr>Algorithm = AlgorithmEC256, PINPolicy = PINPolicyNever,
                           TouchPolicy = touchPolicy\<rparr>\<rparr> \<and>
        slotCertOf w3 (card' y) slot =
          Some \<lparr>Organization = [certOrgName], OrganizationalUnit = [apiVersion w],
                PublicKey = pub priv, Issuer = SelfSigned\<rparr> \<and>
        mutations w3 =
          mutations w @ [CallGenerateKey (card' y) (Key slot), CallSetCertificate (card' y) (Key slot)])"
proof -
  from yubiKey_open_conn [OF assms(3)] have yk: "yk = card' y" .
  have same: "sameDevice w w2"
    using findYubiKey_sameDevice [OF assms(1)] yubiKey_open_sameDevice [OF assms(3)]
    by (rule sameDevice_trans)
  have "yk_Certificate w2 yk slot = Inr (Some cert)"
    using yk_Certificate_sameDevice [OF same, of yk slot] assms(4) by (simp add: yk)
  from getPrivateKey_unknown [OF assms(3) this assms(5)]
  have get: "getPrivateKey y slot w1 = (Inl (TraceError NotFound slotUnknownMsg), w2)" .
  have run: "GetOrGenerateYubiKeyPrivateKey touchRequired w =
       (case generatePrivateKey y slot touchPolicy w2 of
          (Inl e2, w3) \<Rightarrow> (Inl e2, w3)
        | (Inr priv, w3) \<Rightarrow> wrapKey priv w3)"
    using GetOrGenerate_unfold [OF assms(1,2)] get by simp
  have gen: "(\<exists>pk. GetOrGenerateYubiKeyPrivateKey touchRequired w = (Inr pk, w3) \<and> Signer pk = priv) \<and>
        slotKeyOf w3 (card' y) slot =
          Some \<lparr>keyPublic = pub priv, keyGenerated = True,
                keyOpts = \<lparr>Algorithm = AlgorithmEC256, PINPolicy = PINPolicyNever,
                           TouchPolicy = touchPolicy\<rparr>\<rparr> \<and>
        slotCertOf w3 (card' y) slot =
          Some \<lparr>Organization = [certOrgName], OrganizationalUnit = [apiVersion w],
                PublicKey = pub priv, Issuer = SelfSigned\<rparr> \<and>
        mutations w3 =
          mutations w @ [CallGenerateKey (card' y) (Key slot), CallSetCertificate (card' y) (Key slot)]"
    if g: "generatePrivateKey y slot touchPolicy w2 = (Inr priv, w3)" for priv w3
  proof -
    have "GetOrGenerateYubiKeyPrivateKey touchRequired w = wrapKey priv w3"
      unfolding run using g by simp
    with wrapKey_Signer [of priv w3]
    have "\<exists>pk. GetOrGenerateYubiKeyPrivateKey touchRequired w = (Inr pk, w3) \<and> Signer pk = priv"
      by simp
    moreover from same have "apiVersion w2 = apiVersion w" "mutations w2 = mutations w"
      by (simp_all add: sameDevice_def)
    ultimately show ?thesis
      using generatePrivateKey_Inr_state [OF g] by simp
  qed
  from get same run gen show ?thesis by blast
qed

lemma find_foreign:
  "findYubiKey 0 foreignWorld = (Inr yubiKeyA, emit (CallOpen readerA) foreignWorld)"
  by (simp add: foreignWorld_def run_defs world_defs call_defs slot_defs)

lemma open_foreign:
  "yubiKey_open yubiKeyA (emit (CallOpen readerA) foreignWorld) =
     (Inr readerA, emit (CallOpen readerA) (emit (CallOpen readerA) foreignWorld))"
  by (simp add: foreignWorld_def run_defs world_defs call_defs slot_defs)

lemma cert_foreign:
  "yk_Certificate foreignWorld (card' yubiKeyA) SlotAuthentication = Inr (Some foreignCert)"
  by (simp add: foreignWorld_def world_defs call_defs slot_defs)

lemma foreign_unmarked: "Organization foreignCert = [] \<or> Organization foreignCert ! 0 \<noteq> certOrgName"
  by (simp add: foreignCert_def certOrgName_def)

lemma gen_foreign:
  "fst (generatePrivateKey yubiKeyA SlotAuthentication TouchPolicyNever
         (emit (CallOpen readerA) (emit (CallOpen readerA) foreignWorld))) =
     Inr \<lparr>yubiKey = yubiKeyA, pivSlot = SlotAuthentication, pub = ECDSAPublicKey 8\<rparr>"
  by (simp add: foreignWorld_def run_defs world_defs call_defs slot_defs)

theorem unmarked_slot_is_regenerated_witness:
  "findYubiKey 0 foreignWorld = (Inr yubiKeyA, emit (CallOpen readerA) foreignWorld) \<and>
   resolveByTouchRequirement False = (SlotAuthentication, TouchPolicyNever) \<and>
   yk_Certificate foreignWorld (card' yubiKeyA) SlotAuthentication = Inr (Some foreignCert) \<and>
   Organization foreignCert = [''ACME''] \<and>
   getPrivateKey yubiKeyA SlotAuthentication (emit (CallOpen readerA) foreignWorld) =
     (Inl (TraceError NotFound slotUnknownMsg),
      emit (CallOpen readerA) (emit (CallOpen readerA) foreignWorld)) \<and>
   GetOrGenerateYubiKeyPrivateKey False foreignWorld =
     (case generatePrivateKey yubiKeyA SlotAuthentication TouchPolicyNever
             (emit (CallOpen readerA) (emit (CallOpen readerA) foreignWorld)) of
        (Inl e2, w3) \<Rightarrow> (Inl e2, w3)
      | (Inr priv, w3) \<Rightarrow> wrapKey priv w3) \<and>
   fst (generatePrivateKey yubiKeyA SlotAuthentication TouchPolicyNever
         (emit (CallOpen readerA) (emit (CallOpen readerA) foreignWorld))) =
     Inr \<lparr>yubiKey = yubiKeyA, pivSlot = SlotAuthentication, pub = ECDSAPublicKey 8\<rparr> \<and>
   slotCertOf (snd (generatePrivateKey yubiKeyA SlotAuthentication TouchPolicyNever
         (emit (CallOpen readerA) (emit (CallOpen readerA) foreignWorld)))) readerA SlotAuthentication =
     Some \<lparr>Organization = [certOrgName], OrganizationalUnit = [''11.0.0''],
           PublicKey = ECDSAPublicKey 8, Issuer = SelfSigned\<rparr>"
proof -
  note T = unmarked_slot_is_regenerated [OF find_foreign resolve_False open_foreign cert_foreign
      foreign_unmarked]
  from T have a: "getPrivateKey yubiKeyA SlotAuthentication (emit (CallOpen readerA) foreignWorld) =
     (Inl (TraceError NotFound slotUnknownMsg),
      emit (CallOpen readerA) (emit (CallOpen readerA) foreignWorld))"
    by blast
  from T have b: "GetOrGenerateYubiKeyPrivateKey False foreignWorld =
     (case generatePrivateKey yubiKeyA SlotAuthentication TouchPolicyNever
             (emit (CallOpen readerA) (emit (CallOpen readerA) foreignWorld)) of
        (Inl e2, w3) \<Rightarrow> (Inl e2, w3)
      | (Inr priv, w3) \<Rightarrow> wrapKey priv w3)"
    by blast
  have c: "Organization foreignCert = [''ACME'']"
    by (simp add: foreignCert_def)
  let ?w2 = "emit (CallOpen readerA) (emit (CallOpen readerA) foreignWorld)"
  let ?h = "\<lparr>yubiKey = yubiKeyA, pivSlot = SlotAuthentication, pub = ECDSAPublicKey 8\<rparr>"
  have g: "generatePrivateKey yubiKeyA SlotAuthentication TouchPolicyNever ?w2 =
      (Inr ?h, snd (generatePrivateKey yubiKeyA SlotAuthentication TouchPolicyNever ?w2))"
    using gen_foreign by (simp add: prod_eq_iff)
  from T g have "slotCertOf (snd (generatePrivateKey yubiKeyA SlotAuthentication TouchPolicyNever ?w2))
      (card' yubiKeyA) SlotAuthentication =
     Some \<lparr>Organization = [certOrgName], OrganizationalUnit = [apiVersion foreignWorld],
           PublicKey = pub ?h, Issuer = SelfSigned\<rparr>"
    by blast
  then have d: "slotCertOf (snd (generatePrivateKey yubiKeyA SlotAuthentication TouchPolicyNever ?w2))
      readerA SlotAuthentication =
     Some \<lparr>Organization = [certOrgName], OrganizationalUnit = [''11.0.0''],
           PublicKey = ECDSAPublicKey 8, Issuer = SelfSigned\<rparr>"
    by (simp add: yubiKeyA_def foreignWorld_def worldOf_def)
  show ?thesis
    by (intro conjI) (rule find_foreign resolve_False cert_foreign a b c gen_foreign d)+
qed

theorem unmarked_slot_overwritten_counterexample:
  \<open>slotCertOf foreignWorld readerA SlotAuthentication = Some foreignCert \<and>
   Organization foreignCert = [''ACME''] \<and> certOrgName = ''teleport'' \<and>
   slotKeyOf foreignWorld readerA SlotAuthentication = Some (keyPair (ECDSAPublicKey 7) True) \<and>
   fst (GetOrGenerateYubiKeyPrivateKey False foreignWorld) =
     Inr \<lparr>Signer = \<lparr>yubiKey = yubiKeyA, pivSlot = SlotAuthentication, pub = ECDSAPublicKey 8\<rparr>,
          privKeyPEM = \<lparr>Type = ''PIV YUBIKEY PRIVATE KEY'', Headers = [],
                         Bytes = ''{"serial_number":12345678,"slot_key":154}''\<rparr>\<rparr> \<and>
   slotKeyOf (snd (GetOrGenerateYubiKeyPrivateKey False foreignWorld)) readerA SlotAuthentication =
     Some (keyPair (ECDSAPublicKey 8) True) \<and>
   slotCertOf (snd (GetOrGenerateYubiKeyPrivateKey False foreignWorld)) readerA SlotAuthentication =
     Some (markerCert (ECDSAPublicKey 8)) \<and>
   mutations (snd (GetOrGenerateYubiKeyPrivateKey False foreignWorld)) =
     [CallGenerateKey readerA 0x9a, CallSetCertificate readerA 0x9a]\<close>
proof -
  have "slotCertOf foreignWorld readerA SlotAuthentication = Some foreignCert"
    "slotKeyOf foreignWorld readerA SlotAuthentication = Some (keyPair (ECDSAPublicKey 7) True)"
    by (simp_all add: slotCertOf_def slotKeyOf_def foreignWorld_def worldOf_def blankToken_def slot_defs)
  moreover have "slotKeyOf (snd (GetOrGenerateYubiKeyPrivateKey False foreignWorld)) readerA
      SlotAuthentication = Some (keyPair (ECDSAPublicKey 8) True)"
    "slotCertOf (snd (GetOrGenerateYubiKeyPrivateKey False foreignWorld)) readerA SlotAuthentication =
     Some (markerCert (ECDSAPublicKey 8))"
    by (simp_all add: run_foreign slotKeyOf_def slotCertOf_def worldOf_def blankToken_def slot_defs)
  moreover have "mutations (snd (GetOrGenerateYubiKeyPrivateKey False foreignWorld)) =
     [CallGenerateKey readerA 0x9a, CallSetCertificate readerA 0x9a]"
    by (simp add: run_foreign mutations_def worldOf_def)
  ultimately show ?thesis
    using run_foreign by (simp add: foreignCert_def certOrgName_def)
qed

subsection \<open>Which token is used\<close>

lemma findYubiKey_zero:
  "findYubiKey 0 w =
     (case findYubiKeyCards w of
        Inl err \<Rightarrow> (Inl err, w)
      | Inr [] \<Rightarrow> (Inl (TraceError NotFound ''no yubiKey devices found''), w)
      | Inr (c # cards) \<Rightarrow>
          (case newYubiKey c w of
             (Inl err, w1) \<Rightarrow> (Inl err, w1)
           | (Inr y, w1) \<Rightarrow> (Inr y, w1)))"
  by (simp add: findYubiKey_def Wrap_def split: sum.splits list.splits prod.splits)

lemma findYubiKey_zero_first:
  assumes "findYubiKey 0 w = (Inr y, w1)"
  shows "\<exists>c cards t. findYubiKeyCards w = Inr (c # cards) \<and> card' y = c \<and>
    findToken c (readers w) = Some t \<and> serialNumber y = serial t"
proof -
  from assms obtain c cards where cards: "findYubiKeyCards w = Inr (c # cards)"
    and new: "newYubiKey c w = (Inr y, w1)"
    unfolding findYubiKey_zero by (auto split: sum.splits list.splits prod.splits)
  from newYubiKey_Inr [OF new] cards show ?thesis by auto
qed

lemma slotKeyOf_content:
  "map_option content (findToken name (readers w')) = map_option content (findToken name (readers w))
   \<Longrightarrow> slotKeyOf w' name slot = slotKeyOf w name slot"
  by (cases "findToken name (readers w')"; cases "findToken name (readers w)")
    (auto simp: slotKeyOf_def dest: content_eq_fields)

lemma slotCertOf_content:
  "map_option content (findToken name (readers w')) = map_option content (findToken name (readers w))
   \<Longrightarrow> slotCertOf w' name slot = slotCertOf w name slot"
  by (cases "findToken name (readers w')"; cases "findToken name (readers w)")
    (auto simp: slotCertOf_def dest: content_eq_fields)

lemma yk_GenerateKey_other:
  "name \<noteq> yk \<Longrightarrow>
   findToken name (readers (snd (yk_GenerateKey yk key slot opts w))) = findToken name (readers w)"
  by (auto simp: yk_GenerateKey_def Let_def emit_def findToken_updToken_other split: option.splits)

lemma yk_SetCertificate_other:
  "name \<noteq> yk \<Longrightarrow>
   findToken name (readers (snd (yk_SetCertificate yk key slot cert w))) = findToken name (readers w)"
  by (auto simp: yk_SetCertificate_def Let_def emit_def findToken_updToken_other split: option.splits)

lemma generatePrivateKey_other:
  assumes "name \<noteq> card' y"
  shows "map_option content (findToken name (readers (snd (generatePrivateKey y slot tp w)))) =
    map_option content (findToken name (readers w))"
proof (cases "yubiKey_open y w")
  case (Pair r w1)
  from yubiKey_open_sameDevice [OF Pair]
  have s1: "map_option content (findToken name (readers w1)) = map_option content (findToken name (readers w))"
    by (rule sameDevice_findToken)
  show ?thesis
  proof (cases r)
    case (Inl e)
    with Pair s1 show ?thesis by (simp add: generatePrivateKey_def)
  next
    case (Inr yk)
    with Pair have yk: "yk = card' y" by (simp add: yubiKey_open_conn)
    let ?opts = "\<lparr>Algorithm = AlgorithmEC256, PINPolicy = PINPolicyNever, TouchPolicy = tp\<rparr>"
    obtain r2 w2 where gk: "yk_GenerateKey yk DefaultManagementKey slot ?opts w1 = (r2, w2)"
      by (cases "yk_GenerateKey yk DefaultManagementKey slot ?opts w1")
    from yk_GenerateKey_other [of name yk DefaultManagementKey slot ?opts w1] gk assms yk
    have s2: "findToken name (readers w2) = findToken name (readers w1)" by simp
    have s3: "findToken name (readers w3) = findToken name (readers w1)"
      if "yk_SetCertificate yk DefaultManagementKey slot cert w2 = (r3, w3)" for cert r3 w3
      using yk_SetCertificate_other [of name yk DefaultManagementKey slot cert w2] assms yk s2 that
      by simp
    have "findToken name (readers (snd (generatePrivateKey y slot tp w))) = findToken name (readers w1)"
      using Pair Inr gk s2 s3
      by (auto simp: generatePrivateKey_def Let_def newYubiKeyPrivateKey_def
          split: sum.splits prod.splits)
    with s1 show ?thesis by simp
  qed
qed

lemma GetOrGenerate_other:
  assumes cards: "findYubiKeyCards w = Inr (c # cards)" and other: "name \<noteq> c"
  shows "map_option content (findToken name (readers (snd (GetOrGenerateYubiKeyPrivateKey touchRequired w)))) =
    map_option content (findToken name (readers w))"
proof (cases "findYubiKey 0 w")
  case (Pair r w1)
  from findYubiKey_sameDevice [OF Pair] have same1: "sameDevice w w1" .
  show ?thesis
  proof (cases r)
    case (Inl e)
    with Pair sameDevice_findToken [OF same1, of name] show ?thesis
      by (simp add: GetOrGenerateYubiKeyPrivateKey_def)
  next
    case (Inr y)
    with Pair have find: "findYubiKey 0 w = (Inr y, w1)" by simp
    from findYubiKey_zero_first [OF find] cards have cy: "card' y = c" by auto
    obtain slot tp where res: "resolveByTouchRequirement touchRequired = (slot, tp)"
      by (cases "resolveByTouchRequirement touchRequired")
    obtain r2 w2 where get: "getPrivateKey y slot w1 = (r2, w2)"
      by (cases "getPrivateKey y slot w1")
    from getPrivateKey_sameDevice [OF get] same1 have same2: "sameDevice w w2"
      by (blast intro: sameDevice_trans)
    show ?thesis
    proof (cases r2)
      case (Inr priv)
      with GetOrGenerate_unfold [OF find res] get
      have "snd (GetOrGenerateYubiKeyPrivateKey touchRequired w) = w2"
        by (simp add: wrapKey_world)
      with sameDevice_findToken [OF same2, of name] show ?thesis by simp
    next
      case (Inl e)
      with GetOrGenerate_unfold [OF find res] get
      have "snd (GetOrGenerateYubiKeyPrivateKey touchRequired w) =
          snd (generatePrivateKey y slot tp w2)"
        by (simp add: wrapKey_world split: prod.splits sum.splits)
      with generatePrivateKey_other [of name y slot tp w2] other cy
        sameDevice_findToken [OF same2, of name]
      show ?thesis by simp
    qed
  qed
qed

text \<open>
  C10. \<open>GetOrGenerateYubiKeyPrivateKey\<close> looks the token up with serial number 0, which
  \<open>findYubiKey\<close> takes as "any": the lookup is \<open>newYubiKey\<close> of the first card of the
  enumeration with "yubikey" in its name, and nothing else (no YubiKey: \<open>NotFound\<close>; an
  error on the first card: that error). So the key that is returned belongs to that first
  card, with the serial number read from it, and whatever the request does to a token it
  does to that one: the slots of every other reader stay as they were.
\<close>

theorem GetOrGenerate_uses_first_YubiKey:
  "findYubiKey 0 w =
     (case findYubiKeyCards w of
        Inl err \<Rightarrow> (Inl err, w)
      | Inr [] \<Rightarrow> (Inl (TraceError NotFound ''no yubiKey devices found''), w)
      | Inr (c # cards) \<Rightarrow>
          (case newYubiKey c w of
             (Inl err, w1) \<Rightarrow> (Inl err, w1)
           | (Inr y, w1) \<Rightarrow> (Inr y, w1))) \<and>
   (\<forall>touchRequired pk w'.
      GetOrGenerateYubiKeyPrivateKey touchRequired w = (Inr pk, w') \<longrightarrow>
      (\<exists>c cards t. findYubiKeyCards w = Inr (c # cards) \<and> card' (yubiKey (Signer pk)) = c \<and>
         findToken c (readers w) = Some t \<and> serialNumber (yubiKey (Signer pk)) = serial t)) \<and>
   (\<forall>touchRequired c cards name slot.
      findYubiKeyCards w = Inr (c # cards) \<and> name \<noteq> c \<longrightarrow>
      slotKeyOf (snd (GetOrGenerateYubiKeyPrivateKey touchRequired w)) name slot =
        slotKeyOf w name slot \<and>
      slotCertOf (snd (GetOrGenerateYubiKeyPrivateKey touchRequired w)) name slot =
        slotCertOf w name slot)"
proof (intro conjI allI impI)
  show "findYubiKey 0 w =
     (case findYubiKeyCards w of
        Inl err \<Rightarrow> (Inl err, w)
      | Inr [] \<Rightarrow> (Inl (TraceError NotFound ''no yubiKey devices found''), w)
      | Inr (c # cards) \<Rightarrow>
          (case newYubiKey c w of
             (Inl err, w1) \<Rightarrow> (Inl err, w1)
           | (Inr y, w1) \<Rightarrow> (Inr y, w1)))"
    by (rule findYubiKey_zero)
next
  fix touchRequired pk w'
  assume run: "GetOrGenerateYubiKeyPrivateKey touchRequired w = (Inr pk, w')"
  then obtain y w1 where find: "findYubiKey 0 w = (Inr y, w1)"
    by (auto simp: GetOrGenerateYubiKeyPrivateKey_def split: prod.splits sum.splits)
  obtain slot tp where res: "resolveByTouchRequirement touchRequired = (slot, tp)"
    by (cases "resolveByTouchRequirement touchRequired")
  have wrapped: "yubiKey (Signer pk) = yubiKey priv" if "wrapKey priv w2 = (Inr pk, w')" for priv w2
    using that wrapKey_Signer [of priv w2] by auto
  obtain r2 w2 where get: "getPrivateKey y slot w1 = (r2, w2)"
    by (cases "getPrivateKey y slot w1")
  have "yubiKey (Signer pk) = y"
  proof (cases r2)
    case (Inr priv)
    with run GetOrGenerate_unfold [OF find res] get have "wrapKey priv w2 = (Inr pk, w')"
      by simp
    from wrapped [OF this] getPrivateKey_Inr [of y slot w1 priv w2] get Inr show ?thesis
      by simp
  next
    case (Inl e)
    obtain r3 w3 where gen: "generatePrivateKey y slot tp w2 = (r3, w3)"
      by (cases "generatePrivateKey y slot tp w2")
    with run GetOrGenerate_unfold [OF find res] get Inl obtain priv
      where priv: "r3 = Inr priv" "wrapKey priv w3 = (Inr pk, w')"
      by (cases r3) auto
    from generatePrivateKey_Inr_state [of y slot tp w2 priv w3] gen priv(1)
    have "priv = \<lparr>yubiKey = y, pivSlot = slot, pub = pub priv\<rparr>"
      by simp
    then have "yubiKey priv = y"
      by (cases priv) simp
    with wrapped [OF priv(2)] show ?thesis
      by simp
  qed
  with findYubiKey_zero_first [OF find]
  show "\<exists>c cards t. findYubiKeyCards w = Inr (c # cards) \<and> card' (yubiKey (Signer pk)) = c \<and>
         findToken c (readers w) = Some t \<and> serialNumber (yubiKey (Signer pk)) = serial t"
    by simp
next
  fix touchRequired c cards name slot
  assume a: "findYubiKeyCards w = Inr (c # cards) \<and> name \<noteq> c"
  then have eq: "map_option content
      (findToken name (readers (snd (GetOrGenerateYubiKeyPrivateKey touchRequired w)))) =
    map_option content (findToken name (readers w))"
    by (blast intro: GetOrGenerate_other)
  from eq show "slotKeyOf (snd (GetOrGenerateYubiKeyPrivateKey touchRequired w)) name slot =
        slotKeyOf w name slot"
    by (rule slotKeyOf_content)
  from eq show "slotCertOf (snd (GetOrGenerateYubiKeyPrivateKey touchRequired w)) name slot =
        slotCertOf w name slot"
    by (rule slotCertOf_content)
qed

lemma cards_twoTokenWorld: "findYubiKeyCards twoTokenWorld = Inr [readerA, readerB]"
  by (simp add: twoTokenWorld_def findYubiKeyCards_def piv_Cards_def worldOf_def blankToken_def
      isYubiKey_readerA isYubiKey_readerB)

lemma run_twoTokenWorld:
  \<open>fst (GetOrGenerateYubiKeyPrivateKey True twoTokenWorld) =
    Inr \<lparr>Signer = \<lparr>yubiKey = yubiKeyA, pivSlot = SlotSignature, pub = ECDSAPublicKey 1\<rparr>,
         privKeyPEM = \<lparr>Type = ''PIV YUBIKEY PRIVATE KEY'', Headers = [],
                        Bytes = ''{"serial_number":12345678,"slot_key":156}''\<rparr>\<rparr>\<close>
  by (simp add: twoTokenWorld_def run_defs world_defs call_defs slot_defs)

theorem GetOrGenerate_uses_first_YubiKey_witness:
  \<open>findYubiKeyCards twoTokenWorld = Inr [readerA, readerB] \<and> readerB \<noteq> readerA \<and>
   fst (GetOrGenerateYubiKeyPrivateKey True twoTokenWorld) =
    Inr \<lparr>Signer = \<lparr>yubiKey = yubiKeyA, pivSlot = SlotSignature, pub = ECDSAPublicKey 1\<rparr>,
         privKeyPEM = \<lparr>Type = ''PIV YUBIKEY PRIVATE KEY'', Headers = [],
                        Bytes = ''{"serial_number":12345678,"slot_key":156}''\<rparr>\<rparr> \<and>
   card' yubiKeyA = readerA \<and>
   findToken readerA (readers twoTokenWorld) = Some (blankToken readerA 12345678) \<and>
   slotKeyOf (snd (GetOrGenerateYubiKeyPrivateKey True twoTokenWorld)) readerB SlotSignature =
     slotKeyOf twoTokenWorld readerB SlotSignature \<and>
   slotCertOf (snd (GetOrGenerateYubiKeyPrivateKey True twoTokenWorld)) readerB SlotSignature =
     slotCertOf twoTokenWorld readerB SlotSignature\<close>
proof -
  note T = GetOrGenerate_uses_first_YubiKey [of twoTokenWorld]
  have neq: "readerB \<noteq> readerA"
    using readerA_neq_readerB by simp
  from T cards_twoTokenWorld neq
  have other: "slotKeyOf (snd (GetOrGenerateYubiKeyPrivateKey True twoTokenWorld)) readerB SlotSignature =
     slotKeyOf twoTokenWorld readerB SlotSignature \<and>
   slotCertOf (snd (GetOrGenerateYubiKeyPrivateKey True twoTokenWorld)) readerB SlotSignature =
     slotCertOf twoTokenWorld readerB SlotSignature"
    by blast
  have c: "card' yubiKeyA = readerA"
    by (simp add: yubiKeyA_def)
  have t: "findToken readerA (readers twoTokenWorld) = Some (blankToken readerA 12345678)"
    by (simp add: twoTokenWorld_def worldOf_def blankToken_def)
  from other show ?thesis
    by (intro conjI) (rule cards_twoTokenWorld neq run_twoTokenWorld c t | blast)+
qed

subsection \<open>Decoding a descriptor\<close>

lemmas json_defs = canonicalUnmarshal_def stripPrefix_def readNumber_def digitVal_def

lemma parse_Inr:
  assumes "json_Unmarshal keyDataBytes = Inr keyData"
    and "parseYubiKeyPrivateKeyData json_Unmarshal keyDataBytes w = (Inr priv, w')"
  shows "\<exists>w1. parsePIVSlot (SlotKey keyData) = Inr (pivSlot priv) \<and>
    findYubiKey (SerialNumber keyData) w = (Inr (yubiKey priv), w1) \<and>
    getPrivateKey (yubiKey priv) (pivSlot priv) w1 = (Inr priv, w')"
proof -
  from assms obtain slot y w1 where slot: "parsePIVSlot (SlotKey keyData) = Inr slot"
    and find: "findYubiKey (SerialNumber keyData) w = (Inr y, w1)"
    and get: "getPrivateKey y slot w1 = (Inr priv, w')"
    by (auto simp: parseYubiKeyPrivateKeyData_def split: sum.splits prod.splits)
  from getPrivateKey_Inr [OF get] slot find get show ?thesis by auto
qed

text \<open>
  C5 (as amended). Decoding a descriptor with a serial number other than 0 attaches to a
  connected token with exactly that serial number, and to the slot that \<open>parsePIVSlot\<close>
  gives for the descriptor's slot key, or it fails. A descriptor with the serial number 0
  is not refused: it attaches to the first YubiKey of the enumeration, whatever serial
  number that token has.
\<close>

theorem parse_attaches_by_serial:
  assumes "json_Unmarshal keyDataBytes = Inr keyData"
    and "parseYubiKeyPrivateKeyData json_Unmarshal keyDataBytes w = (Inr priv, w')"
  shows "parsePIVSlot (SlotKey keyData) = Inr (pivSlot priv) \<and>
    Key (pivSlot priv) = SlotKey keyData \<and>
    (\<exists>t. findToken (card' (yubiKey priv)) (readers w) = Some t \<and>
         serial t = serialNumber (yubiKey priv)) \<and>
    (SerialNumber keyData \<noteq> 0 \<longrightarrow> serialNumber (yubiKey priv) = SerialNumber keyData) \<and>
    (SerialNumber keyData = 0 \<longrightarrow>
       (\<exists>c cards. findYubiKeyCards w = Inr (c # cards) \<and> card' (yubiKey priv) = c))"
proof -
  from parse_Inr [OF assms] obtain w1 where slot: "parsePIVSlot (SlotKey keyData) = Inr (pivSlot priv)"
    and find: "findYubiKey (SerialNumber keyData) w = (Inr (yubiKey priv), w1)"
    by blast
  from parsePIVSlot_Inr_Key [OF slot] have key: "Key (pivSlot priv) = SlotKey keyData"
    by simp
  from findYubiKey_Inr [OF find]
  have tok: "\<exists>t. findToken (card' (yubiKey priv)) (readers w) = Some t \<and>
         serial t = serialNumber (yubiKey priv)"
    and sn: "SerialNumber keyData \<noteq> 0 \<longrightarrow> serialNumber (yubiKey priv) = SerialNumber keyData"
    by blast+
  have first: "\<exists>c cards. findYubiKeyCards w = Inr (c # cards) \<and> card' (yubiKey priv) = c"
    if "SerialNumber keyData = 0"
    using findYubiKey_zero_first [of w "yubiKey priv" w1] find that by auto
  from slot key tok sn first show ?thesis by blast
qed

lemma unmarshal_later:
  \<open>canonicalUnmarshal ''{"serial_number":87654321,"slot_key":154}'' =
     Inr \<lparr>SerialNumber = 87654321, SlotKey = 0x9a\<rparr>\<close>
  by (simp add: json_defs)

lemma unmarshal_zero:
  \<open>canonicalUnmarshal ''{"serial_number":0,"slot_key":154}'' =
     Inr \<lparr>SerialNumber = 0, SlotKey = 0x9a\<rparr>\<close>
  by (simp add: json_defs)

lemma parsePIVSlot_9a: "parsePIVSlot 0x9a = Inr SlotAuthentication"
  by (simp add: parsePIVSlot_def SlotAuthentication_def)

lemma parse_later:
  \<open>fst (parseYubiKeyPrivateKeyData canonicalUnmarshal ''{"serial_number":87654321,"slot_key":154}''
       laterWorld) =
     Inr \<lparr>yubiKey = \<lparr>card' = readerB, serialNumber = 87654321\<rparr>, pivSlot = SlotAuthentication,
          pub = ECDSAPublicKey 3\<rparr>\<close>
  by (simp add: parseYubiKeyPrivateKeyData_def unmarshal_later parsePIVSlot_9a laterWorld_def
      run_defs world_defs call_defs slot_defs)

lemma parse_zero:
  \<open>fst (parseYubiKeyPrivateKeyData canonicalUnmarshal ''{"serial_number":0,"slot_key":154}''
       provisionedWorld) =
     Inr \<lparr>yubiKey = yubiKeyA, pivSlot = SlotAuthentication, pub = ECDSAPublicKey 7\<rparr>\<close>
  by (simp add: parseYubiKeyPrivateKeyData_def unmarshal_zero parsePIVSlot_9a provisionedWorld_def
      run_defs world_defs call_defs slot_defs)

theorem parse_attaches_by_serial_witness:
  \<open>canonicalUnmarshal ''{"serial_number":87654321,"slot_key":154}'' =
     Inr \<lparr>SerialNumber = 87654321, SlotKey = 0x9a\<rparr> \<and>
   fst (parseYubiKeyPrivateKeyData canonicalUnmarshal ''{"serial_number":87654321,"slot_key":154}''
       laterWorld) =
     Inr \<lparr>yubiKey = \<lparr>card' = readerB, serialNumber = 87654321\<rparr>, pivSlot = SlotAuthentication,
          pub = ECDSAPublicKey 3\<rparr> \<and>
   parsePIVSlot 0x9a = Inr SlotAuthentication \<and>
   map_option serial (findToken readerB (readers laterWorld)) = Some 87654321 \<and>
   canonicalUnmarshal ''{"serial_number":0,"slot_key":154}'' =
     Inr \<lparr>SerialNumber = 0, SlotKey = 0x9a\<rparr> \<and>
   fst (parseYubiKeyPrivateKeyData canonicalUnmarshal ''{"serial_number":0,"slot_key":154}''
       provisionedWorld) =
     Inr \<lparr>yubiKey = yubiKeyA, pivSlot = SlotAuthentication, pub = ECDSAPublicKey 7\<rparr> \<and>
   map_sum id hd (findYubiKeyCards provisionedWorld) = Inr (card' yubiKeyA)\<close>
proof -
  let ?bz = \<open>''{"serial_number":0,"slot_key":154}''\<close>
  let ?hz = "\<lparr>yubiKey = yubiKeyA, pivSlot = SlotAuthentication, pub = ECDSAPublicKey 7\<rparr>"
  have runz: "parseYubiKeyPrivateKeyData canonicalUnmarshal ?bz provisionedWorld =
      (Inr ?hz, snd (parseYubiKeyPrivateKeyData canonicalUnmarshal ?bz provisionedWorld))"
    using parse_zero by (simp add: prod_eq_iff)
  from parse_attaches_by_serial [OF unmarshal_zero runz]
  have "\<exists>c cards. findYubiKeyCards provisionedWorld = Inr (c # cards) \<and> card' yubiKeyA = c"
    by simp
  then have first: "map_sum id hd (findYubiKeyCards provisionedWorld) = Inr (card' yubiKeyA)"
    by auto
  let ?bs = \<open>''{"serial_number":87654321,"slot_key":154}''\<close>
  let ?h = "\<lparr>yubiKey = \<lparr>card' = readerB, serialNumber = 87654321\<rparr>, pivSlot = SlotAuthentication,
          pub = ECDSAPublicKey 3\<rparr>"
  have run: "parseYubiKeyPrivateKeyData canonicalUnmarshal ?bs laterWorld =
      (Inr ?h, snd (parseYubiKeyPrivateKeyData canonicalUnmarshal ?bs laterWorld))"
    using parse_later by (simp add: prod_eq_iff)
  from parse_attaches_by_serial [OF unmarshal_later run]
  have "\<exists>t. findToken readerB (readers laterWorld) = Some t \<and> serial t = 87654321"
    by simp
  then have "map_option serial (findToken readerB (readers laterWorld)) = Some 87654321"
    by auto
  with first show ?thesis
    by (intro conjI)
      (rule unmarshal_later parse_later parsePIVSlot_9a unmarshal_zero parse_zero | assumption)+
qed

theorem parse_serial_zero_counterexample:
  \<open>canonicalUnmarshal ''{"serial_number":0,"slot_key":154}'' =
     Inr \<lparr>SerialNumber = 0, SlotKey = 0x9a\<rparr> \<and>
   fst (parseYubiKeyPrivateKeyData canonicalUnmarshal ''{"serial_number":0,"slot_key":154}''
       provisionedWorld) =
     Inr \<lparr>yubiKey = yubiKeyA, pivSlot = SlotAuthentication, pub = ECDSAPublicKey 7\<rparr> \<and>
   serialNumber yubiKeyA = 12345678 \<and>
   map_option serial (findToken (card' yubiKeyA) (readers provisionedWorld)) = Some 12345678 \<and>
   (12345678 :: uint32) \<noteq> 0\<close>
  using unmarshal_zero parse_zero
  by (simp add: yubiKeyA_def provisionedWorld_def worldOf_def blankToken_def)

lemma keyPEM_eq:
  "\<exists>block. keyPEM h = Inr block \<and> Type block = pivYubiKeyPrivateKeyType \<and>
     json_Marshal (descriptorOf h) = Inr (Bytes block)"
  by (simp add: keyPEM_def json_Marshal_def descriptorOf_def)

lemma parse_malformed:
  "json_Unmarshal bs = Inl e \<Longrightarrow> parseYubiKeyPrivateKeyData json_Unmarshal bs w = (Inl e, w)"
  by (simp add: parseYubiKeyPrivateKeyData_def Wrap_def)

lemma parse_unknown_slot:
  assumes "json_Unmarshal bs = Inr d" and "SlotKey d \<notin> Key ` set pivSlots"
  shows "parseYubiKeyPrivateKeyData json_Unmarshal bs w =
    (Inl (TraceError BadParameter (''slot '' @ fmtX (unat (SlotKey d)) @ '' does not exist'')), w)"
  using assms(1) parsePIVSlot_unknown [OF assms(2)]
  by (simp add: parseYubiKeyPrivateKeyData_def Wrap_def)

lemma parse_found:
  assumes "json_Unmarshal bs = Inr d" and "parsePIVSlot (SlotKey d) = Inr slot"
    and "findYubiKey (SerialNumber d) w = (Inr y, w1)"
    and "getPrivateKey y slot w1 = (Inr h', w2)"
  shows "parseYubiKeyPrivateKeyData json_Unmarshal bs w = (Inr h', w2)"
  using assms by (simp add: parseYubiKeyPrivateKeyData_def)



lemma keyPEM_later:
  \<open>keyPEM \<lparr>yubiKey = \<lparr>card' = readerB, serialNumber = 87654321\<rparr>, pivSlot = SlotAuthentication,
           pub = ECDSAPublicKey 3\<rparr> =
     Inr \<lparr>Type = ''PIV YUBIKEY PRIVATE KEY'', Headers = [],
          Bytes = ''{"serial_number":87654321,"slot_key":154}''\<rparr>\<close>
  by (simp add: keyPEM_def json_Marshal_def fmtD.simps pivYubiKeyPrivateKeyType_def slot_defs Wrap_def)

lemma find_later:
  "fst (findYubiKey 87654321 laterWorld) = Inr \<lparr>card' = readerB, serialNumber = 87654321\<rparr>"
  by (simp add: laterWorld_def run_defs world_defs call_defs slot_defs)

lemma get_later:
  "fst (getPrivateKey \<lparr>card' = readerB, serialNumber = 87654321\<rparr> SlotAuthentication
         (snd (findYubiKey 87654321 laterWorld))) =
     Inr \<lparr>yubiKey = \<lparr>card' = readerB, serialNumber = 87654321\<rparr>, pivSlot = SlotAuthentication,
          pub = ECDSAPublicKey 3\<rparr>"
  by (simp add: laterWorld_def run_defs world_defs call_defs slot_defs)

lemma unmarshal_truncated:
  \<open>canonicalUnmarshal ''{"serial_number":12345678'' = Inl syntaxError\<close>
  by (simp add: json_defs)

lemma unmarshal_slot_42:
  \<open>canonicalUnmarshal ''{"serial_number":12345678,"slot_key":66}'' =
     Inr \<lparr>SerialNumber = 12345678, SlotKey = 0x42\<rparr>\<close>
  by (simp add: json_defs)


lemma keyPEM_zero:
  \<open>keyPEM zeroSerialKey =
     Inr \<lparr>Type = ''PIV YUBIKEY PRIVATE KEY'', Headers = [],
          Bytes = ''{"serial_number":0,"slot_key":154}''\<rparr>\<close>
  by (simp add: zeroSerialKey_def keyPEM_def json_Marshal_def fmtD.simps pivYubiKeyPrivateKeyType_def
      slot_defs Wrap_def)


subsection \<open>The slot and the touch policy of a request\<close>

lemma GetOrGenerate_Inr_cases:
  assumes run: "GetOrGenerateYubiKeyPrivateKey touchRequired w = (Inr pk, w')"
  obtains (reuse) y w1 slot tp where "findYubiKey 0 w = (Inr y, w1)"
      "resolveByTouchRequirement touchRequired = (slot, tp)"
      "getPrivateKey y slot w1 = (Inr (Signer pk), w')"
  | (generate) y w1 slot tp e w2 where "findYubiKey 0 w = (Inr y, w1)"
      "resolveByTouchRequirement touchRequired = (slot, tp)"
      "getPrivateKey y slot w1 = (Inl e, w2)"
      "generatePrivateKey y slot tp w2 = (Inr (Signer pk), w')"
proof -
  from run obtain y w1 where find: "findYubiKey 0 w = (Inr y, w1)"
    by (auto simp: GetOrGenerateYubiKeyPrivateKey_def split: prod.splits sum.splits)
  obtain slot tp where res: "resolveByTouchRequirement touchRequired = (slot, tp)"
    by (cases "resolveByTouchRequirement touchRequired")
  have wrapped: "priv = Signer pk \<and> w2 = w'" if "wrapKey priv w2 = (Inr pk, w')" for priv w2
    using that wrapKey_Signer [of priv w2] by auto
  obtain r2 w2 where get: "getPrivateKey y slot w1 = (r2, w2)"
    by (cases "getPrivateKey y slot w1")
  show ?thesis
  proof (cases r2)
    case (Inr priv)
    with run GetOrGenerate_unfold [OF find res] get have "wrapKey priv w2 = (Inr pk, w')"
      by simp
    from wrapped [OF this] get Inr have "getPrivateKey y slot w1 = (Inr (Signer pk), w')"
      by simp
    with find res show ?thesis by (rule reuse)
  next
    case (Inl e)
    obtain r3 w3 where gen: "generatePrivateKey y slot tp w2 = (r3, w3)"
      by (cases "generatePrivateKey y slot tp w2")
    with run GetOrGenerate_unfold [OF find res] get Inl obtain priv
      where priv: "r3 = Inr priv" "wrapKey priv w3 = (Inr pk, w')"
      by (cases r3) auto
    from wrapped [OF priv(2)] gen priv(1)
    have "generatePrivateKey y slot tp w2 = (Inr (Signer pk), w')"
      by simp
    with find res get Inl show ?thesis by (intro generate) simp_all
  qed
qed

text \<open>
  C9. The mapping from the touch requirement to the slot and the touch policy is a
  function of the requirement alone: without touch it is the authentication slot (9a)
  with the policy "never", with touch the signature slot (9c) with the policy "cached".
  \<open>GetOrGenerateYubiKeyPrivateKey\<close> uses it: the key it returns is in that slot, and a key
  it generates has that touch policy.
\<close>

theorem resolveByTouchRequirement_mapping:
  "resolveByTouchRequirement False = (SlotAuthentication, TouchPolicyNever) \<and>
   resolveByTouchRequirement True = (SlotSignature, TouchPolicyCached) \<and>
   Key SlotAuthentication = 0x9a \<and> Key SlotSignature = 0x9c \<and>
   (\<forall>touchRequired w pk w'.
      GetOrGenerateYubiKeyPrivateKey touchRequired w = (Inr pk, w') \<longrightarrow>
      pivSlot (Signer pk) = fst (resolveByTouchRequirement touchRequired) \<and>
      (mutations w' \<noteq> mutations w \<longrightarrow>
         map_option (\<lambda>k. TouchPolicy (keyOpts k))
             (slotKeyOf w' (card' (yubiKey (Signer pk))) (pivSlot (Signer pk))) =
           Some (snd (resolveByTouchRequirement touchRequired))))"
proof (intro conjI allI impI)
  fix touchRequired w pk w'
  assume run: "GetOrGenerateYubiKeyPrivateKey touchRequired w = (Inr pk, w')"
  from run show "pivSlot (Signer pk) = fst (resolveByTouchRequirement touchRequired)"
  proof (cases rule: GetOrGenerate_Inr_cases)
    case (reuse y w1 slot tp)
    with getPrivateKey_Inr [of y slot w1 "Signer pk" w'] show ?thesis by simp
  next
    case (generate y w1 slot tp e w2)
    from generatePrivateKey_Inr_state [OF generate(4)]
    have "Signer pk = \<lparr>yubiKey = y, pivSlot = slot, pub = pub (Signer pk)\<rparr>" by blast
    then have "pivSlot (Signer pk) = slot" by (cases "Signer pk") simp
    with generate(2) show ?thesis by simp
  qed
  assume changed: "mutations w' \<noteq> mutations w"
  from run show "map_option (\<lambda>k. TouchPolicy (keyOpts k))
             (slotKeyOf w' (card' (yubiKey (Signer pk))) (pivSlot (Signer pk))) =
           Some (snd (resolveByTouchRequirement touchRequired))"
  proof (cases rule: GetOrGenerate_Inr_cases)
    case (reuse y w1 slot tp)
    from findYubiKey_sameDevice [OF reuse(1)] getPrivateKey_sameDevice [OF reuse(3)]
    have "mutations w' = mutations w" by (simp add: sameDevice_def)
    with changed show ?thesis by simp
  next
    case (generate y w1 slot tp e w2)
    from generatePrivateKey_Inr_state [OF generate(4)]
    have h: "Signer pk = \<lparr>yubiKey = y, pivSlot = slot, pub = pub (Signer pk)\<rparr>"
      and k: "slotKeyOf w' (card' y) slot =
       Some \<lparr>keyPublic = pub (Signer pk), keyGenerated = True,
             keyOpts = \<lparr>Algorithm = AlgorithmEC256, PINPolicy = PINPolicyNever, TouchPolicy = tp\<rparr>\<rparr>"
      by blast+
    from h have "yubiKey (Signer pk) = y" "pivSlot (Signer pk) = slot"
      by (cases "Signer pk"; simp)+
    with k generate(2) show ?thesis by simp
  qed
qed (simp_all add: resolveByTouchRequirement_def SlotAuthentication_def SlotSignature_def)

theorem resolveByTouchRequirement_mapping_witness:
  \<open>fst (GetOrGenerateYubiKeyPrivateKey True twoTokenWorld) =
    Inr \<lparr>Signer = \<lparr>yubiKey = yubiKeyA, pivSlot = SlotSignature, pub = ECDSAPublicKey 1\<rparr>,
         privKeyPEM = \<lparr>Type = ''PIV YUBIKEY PRIVATE KEY'', Headers = [],
                        Bytes = ''{"serial_number":12345678,"slot_key":156}''\<rparr>\<rparr> \<and>
   fst (resolveByTouchRequirement True) = SlotSignature \<and>
   mutations twoTokenWorld = [] \<and>
   mutations (snd (GetOrGenerateYubiKeyPrivateKey True twoTokenWorld)) =
     [CallGenerateKey readerA 0x9c, CallSetCertificate readerA 0x9c] \<and>
   map_option (\<lambda>k. TouchPolicy (keyOpts k))
     (slotKeyOf (snd (GetOrGenerateYubiKeyPrivateKey True twoTokenWorld)) readerA SlotSignature) =
     Some TouchPolicyCached\<close>
proof -
  let ?pk = \<open>\<lparr>Signer = \<lparr>yubiKey = yubiKeyA, pivSlot = SlotSignature, pub = ECDSAPublicKey 1\<rparr>,
         privKeyPEM = \<lparr>Type = ''PIV YUBIKEY PRIVATE KEY'', Headers = [],
                        Bytes = ''{"serial_number":12345678,"slot_key":156}''\<rparr>\<rparr>\<close>
  let ?w' = "snd (GetOrGenerateYubiKeyPrivateKey True twoTokenWorld)"
  have run: "GetOrGenerateYubiKeyPrivateKey True twoTokenWorld = (Inr ?pk, ?w')"
    using run_twoTokenWorld by (simp add: prod_eq_iff)
  have m0: "mutations twoTokenWorld = []"
    by (simp add: mutations_def twoTokenWorld_def worldOf_def)
  have m1: "mutations ?w' = [CallGenerateKey readerA 0x9c, CallSetCertificate readerA 0x9c]"
    by (simp add: twoTokenWorld_def run_defs world_defs call_defs slot_defs mutations_def)
  have changed: "mutations ?w' \<noteq> mutations twoTokenWorld"
    by (simp add: m0 m1)
  from resolveByTouchRequirement_mapping run changed
  have "map_option (\<lambda>k. TouchPolicy (keyOpts k))
     (slotKeyOf ?w' (card' (yubiKey (Signer ?pk))) (pivSlot (Signer ?pk))) =
     Some (snd (resolveByTouchRequirement True))"
    by blast
  then have tp: "map_option (\<lambda>k. TouchPolicy (keyOpts k)) (slotKeyOf ?w' readerA SlotSignature) =
     Some TouchPolicyCached"
    by (simp add: yubiKeyA_def resolveByTouchRequirement_def)
  have res: "fst (resolveByTouchRequirement True) = SlotSignature"
    by (simp add: resolveByTouchRequirement_def)
  show ?thesis
    by (intro conjI) (rule run_twoTokenWorld res m0 m1 tp)+
qed

subsection \<open>Generating, then asking again\<close>

lemma answersAttestation_content:
  "content t = content t' \<Longrightarrow> answersAttestation t = answersAttestation t'"
  by (auto simp: answersAttestation_def dest: content_eq_fields)


lemma fst_generate_freshWorld:
  "fst (generatePrivateKey yubiKeyA SlotAuthentication TouchPolicyNever freshWorld) =
     Inr \<lparr>yubiKey = yubiKeyA, pivSlot = SlotAuthentication, pub = ECDSAPublicKey 1\<rparr>"
  by (simp add: freshWorld_def run_defs world_defs call_defs slot_defs)

lemma findToken_generatedWorld:
  "findToken readerA (readers (snd (generatePrivateKey yubiKeyA SlotAuthentication TouchPolicyNever freshWorld))) =
     Some ((blankToken readerA 12345678)
       \<lparr>keys := (\<lambda>k. None)(0x9a \<mapsto> keyPair (ECDSAPublicKey 1) True),
        certs := (\<lambda>k. None)(0x5fc105 \<mapsto> markerCert (ECDSAPublicKey 1)), keygen := 2\<rparr>)"
  by (simp add: freshWorld_def run_defs world_defs call_defs slot_defs)

lemma find_generatedWorld:
  "fst (findYubiKey 0 (snd (generatePrivateKey yubiKeyA SlotAuthentication TouchPolicyNever freshWorld))) =
     Inr yubiKeyA"
  by (simp add: freshWorld_def run_defs world_defs call_defs slot_defs)


end
